theory Spec2Isabelle
  imports Complex_Main "HOL-Library.Char_ord" "HOL-Library.List_Lexorder" "HOL-Library.AList"
begin

section \<open>Python values\<close>

text \<open>
  The values \<^verbatim>\<open>json.loads\<close> produces. A Python float is a finite rational, an infinity
  or NaN. A dict is an association list in insertion order; the lists stand for dicts, so
  their keys are distinct and \<open>map_of\<close> is the lookup. Strings are ASCII text.
\<close>

datatype pyfloat = Finite rat | Infinity bool | NaN

datatype json =
    JNull
  | JBool bool
  | JInt int
  | JFloat pyfloat
  | JStr string
  | JArr "json list"
  | JObj "(string \<times> json) list"

type_synonym pydict = "(string \<times> json) list"

datatype error =
    TransportError
  | HTTPError nat
  | JSONDecodeError
  | XMLParseError
  | AttributeError
  | KeyError

text \<open>Truth value of a Python object, as \<^verbatim>\<open>x or {}\<close> and \<^verbatim>\<open>if not items\<close> test it.\<close>

fun truthy :: "json \<Rightarrow> bool" where
  "truthy JNull = False"
| "truthy (JBool b) = b"
| "truthy (JInt i) = (i \<noteq> 0)"
| "truthy (JFloat f) = (f \<noteq> Finite 0)"
| "truthy (JStr s) = (s \<noteq> [])"
| "truthy (JArr xs) = (xs \<noteq> [])"
| "truthy (JObj kv) = (kv \<noteq> [])"

text \<open>\<^verbatim>\<open>x or {}\<close>\<close>

definition or_empty :: "json \<Rightarrow> json" where
  "or_empty x = (if truthy x then x else JObj [])"

text \<open>\<^verbatim>\<open>isinstance(x, dict)\<close>\<close>

fun is_dict :: "json \<Rightarrow> bool" where
  "is_dict (JObj kv) = True"
| "is_dict _ = False"

text \<open>\<^verbatim>\<open>k in x\<close> for a dict \<open>x\<close> (only called behind \<open>is_dict\<close>).\<close>

fun has_key :: "json \<Rightarrow> string \<Rightarrow> bool" where
  "has_key (JObj kv) k = (map_of kv k \<noteq> None)"
| "has_key _ k = False"

text \<open>
  \<^verbatim>\<open>x.get(k)\<close>: the value, or None for a missing key; only a dict has the attribute
  \<^verbatim>\<open>get\<close>, every other value raises AttributeError.
\<close>

fun py_get :: "json \<Rightarrow> string \<Rightarrow> error + json" where
  "py_get (JObj kv) k = Inr (case map_of kv k of None \<Rightarrow> JNull | Some v \<Rightarrow> v)"
| "py_get _ k = Inl AttributeError"

section \<open>Text helpers\<close>

text \<open>\<^verbatim>\<open>str.isspace\<close> on ASCII: codes 9 to 13, 28 to 32.\<close>

definition is_space :: "char \<Rightarrow> bool" where
  "is_space c = (let n = (of_char c :: nat) in (9 \<le> n \<and> n \<le> 13) \<or> (28 \<le> n \<and> n \<le> 32))"

definition strip :: "string \<Rightarrow> string" where
  "strip s = rev (dropWhile is_space (rev (dropWhile is_space s)))"

definition lower_char :: "char \<Rightarrow> char" where
  "lower_char c = (let n = (of_char c :: nat) in if 65 \<le> n \<and> n \<le> 90 then char_of (n + 32) else c)"

definition lower :: "string \<Rightarrow> string" where
  "lower s = map lower_char s"

definition startswith :: "string \<Rightarrow> string \<Rightarrow> bool" where
  "startswith s p = (take (length p) s = p)"

text \<open>\<^verbatim>\<open>p in s\<close> for strings.\<close>

fun contains :: "string \<Rightarrow> string \<Rightarrow> bool" where
  "contains [] p = (p = [])"
| "contains (c # s) p = (startswith (c # s) p \<or> contains s p)"

definition is_digit :: "char \<Rightarrow> bool" where
  "is_digit c = (let n = (of_char c :: nat) in 48 \<le> n \<and> n \<le> 57)"

definition digit_val :: "char \<Rightarrow> int" where
  "digit_val c = int (of_char c) - 48"

section \<open>Response Normalizer\<close>

definition is_json_response :: "string \<Rightarrow> string \<Rightarrow> bool" where
  "is_json_response body ctype =
     (if ctype \<noteq> [] \<and> contains (lower ctype) ''json'' then True
      else (let t = strip body in startswith t ''{'' \<or> startswith t ''[''))"

text \<open>An \<^verbatim>\<open>ElementTree\<close> element: tag, text (None when it has none), children.\<close>

datatype xml = Element (tag: string) (elem_text: "string option") (children: "xml list")

text \<open>\<^verbatim>\<open>root.findall(".//item")\<close>: the descendants of the root, in document order,
  whose tag is \<^verbatim>\<open>item\<close>.\<close>

fun descendants :: "xml \<Rightarrow> xml list" where
  "descendants (Element t x cs) = concat (map (\<lambda>c. c # descendants c) cs)"

definition findall_item :: "xml \<Rightarrow> xml list" where
  "findall_item rt = filter (\<lambda>e. tag e = ''item'') (descendants rt)"

definition text_value :: "string option \<Rightarrow> json" where
  "text_value t = (case t of None \<Rightarrow> JNull | Some s \<Rightarrow> JStr s)"

text \<open>The row of one item: \<^verbatim>\<open>row[child.tag] = child.text\<close> for each child in turn.\<close>

definition item_row :: "xml \<Rightarrow> pydict" where
  "item_row item = fold (\<lambda>child row. AList.update (tag child) (text_value (elem_text child)) row)
                       (children item) []"

definition parse_xml_items :: "xml \<Rightarrow> pydict list" where
  "parse_xml_items rt = filter (\<lambda>row. row \<noteq> []) (map item_row (findall_item rt))"

text \<open>One element of a list: a dict as it is, anything else wrapped under \<^verbatim>\<open>value\<close>.\<close>

fun wrap_value :: "json \<Rightarrow> pydict" where
  "wrap_value (JObj kv) = kv"
| "wrap_value x = [(''value'', x)]"

function normalize_items :: "json \<Rightarrow> pydict list" where
  "normalize_items JNull = []"
| "normalize_items (JArr xs) = map wrap_value xs"
| "normalize_items (JObj kv) =
     (case map_of kv ''item'' of
        Some v \<Rightarrow> normalize_items v
      | None \<Rightarrow> [kv])"
| "normalize_items (JBool b) = [[(''value'', JBool b)]]"
| "normalize_items (JInt i) = [[(''value'', JInt i)]]"
| "normalize_items (JFloat f) = [[(''value'', JFloat f)]]"
| "normalize_items (JStr s) = [[(''value'', JStr s)]]"
  by pat_completeness auto
termination
proof (relation "measure size", goal_cases)
  case 1
  show ?case by simp
next
  case (2 kv v)
  have "map_of kv k = Some v \<Longrightarrow> size v < Suc (size_list (size_prod (\<lambda>_. 0) size) kv)" for k
    by (induction kv) (auto split: if_splits)
  with 2 show ?case by simp
qed

text \<open>
  The JSON branch of \<^verbatim>\<open>extract_items\<close> after \<^verbatim>\<open>json.loads\<close>: which object is handed to
  \<^verbatim>\<open>_normalize_items\<close>. The branch is chosen by the presence of the key.
\<close>

definition items_obj :: "json \<Rightarrow> error + json" where
  "items_obj data =
     (if is_dict data \<and> has_key data ''response'' then
        (case py_get data ''response'' of
           Inl e \<Rightarrow> Inl e
         | Inr r \<Rightarrow>
            (case py_get (or_empty r) ''body'' of
               Inl e \<Rightarrow> Inl e
             | Inr b \<Rightarrow> py_get (or_empty b) ''items''))
      else if is_dict data \<and> has_key data ''items'' then py_get data ''items''
      else Inr data)"

text \<open>
  The library calls are parameters of the model: \<^verbatim>\<open>requests.get\<close>, \<^verbatim>\<open>json.loads\<close> and
  \<^verbatim>\<open>ET.fromstring\<close> (None when the parser raises), and so are the module's settings,
  which the functions read when they run (\<^verbatim>\<open>api_explorer\<close> sets \<^verbatim>\<open>NUM_OF_ROWS = 100\<close> and
  \<^verbatim>\<open>MAX_PAGES = 50\<close>).
\<close>

record response =
  status_code :: nat
  resp_text :: string
  content_type_header :: "string option"

record env =
  requests_get :: "string \<Rightarrow> pydict \<Rightarrow> error + response"
  json_loads :: "string \<Rightarrow> json option"
  ET_fromstring :: "string \<Rightarrow> xml option"
  NUM_OF_ROWS :: int
  MAX_PAGES :: int
  SERVICE_KEY :: string
  RETURN_TYPE :: string

definition extract_items :: "env \<Rightarrow> string \<Rightarrow> string \<Rightarrow> error + (pydict list \<times> json)" where
  "extract_items E body ctype =
     (if is_json_response body ctype then
        (case json_loads E body of
           None \<Rightarrow> Inl JSONDecodeError
         | Some data \<Rightarrow>
            (case items_obj data of
               Inl e \<Rightarrow> Inl e
             | Inr obj \<Rightarrow> Inr (normalize_items obj, data)))
      else
        (case ET_fromstring E body of
           None \<Rightarrow> Inl XMLParseError
         | Some rt \<Rightarrow> Inr (parse_xml_items rt, JObj [])))"

section \<open>Paginator\<close>

text \<open>
  \<^verbatim>\<open>int(s)\<close> for a string: blanks around it (on ASCII, \<^verbatim>\<open>int\<close> skips the codes 9 to 13
  and 32 only, not 28 to 31), a sign, decimal digits with single underscores between them,
  and no more than 4300 digits (the default limit of Python 3.11). None stands for
  ValueError.
\<close>

definition is_int_space :: "char \<Rightarrow> bool" where
  "is_int_space c = (let n = (of_char c :: nat) in (9 \<le> n \<and> n \<le> 13) \<or> n = 32)"

fun digit_groups :: "string \<Rightarrow> bool" where
  "digit_groups [] = False"
| "digit_groups [c] = is_digit c"
| "digit_groups (c # d # s) =
     (is_digit c \<and> (if d = CHR ''_'' then digit_groups s else digit_groups (d # s)))"

definition digits_value :: "string \<Rightarrow> int" where
  "digits_value s = foldl (\<lambda>a c. 10 * a + digit_val c) 0 (filter is_digit s)"

definition unsigned_int_of_str :: "string \<Rightarrow> int option" where
  "unsigned_int_of_str s =
     (if digit_groups s \<and> length (filter is_digit s) \<le> 4300 then Some (digits_value s)
      else None)"

definition int_of_str :: "string \<Rightarrow> int option" where
  "int_of_str s =
     (case rev (dropWhile is_int_space (rev (dropWhile is_int_space s))) of
        [] \<Rightarrow> None
      | c # r \<Rightarrow>
          if c = CHR ''-'' then map_option uminus (unsigned_int_of_str r)
          else if c = CHR ''+'' then unsigned_int_of_str r
          else unsigned_int_of_str (c # r))"

text \<open>\<^verbatim>\<open>int(tc)\<close>; None stands for the exception that \<^verbatim>\<open>_extract_total_count\<close> catches.\<close>

fun py_int :: "json \<Rightarrow> int option" where
  "py_int (JBool b) = Some (if b then 1 else 0)"
| "py_int (JInt i) = Some i"
| "py_int (JFloat (Finite q)) = Some (if 0 \<le> q then \<lfloor>q\<rfloor> else \<lceil>q\<rceil>)"
| "py_int (JFloat _) = None"
| "py_int (JStr s) = int_of_str s"
| "py_int _ = None"

definition extract_total_count :: "json \<Rightarrow> int option" where
  "extract_total_count meta =
     (case py_get meta ''response'' of
        Inl e \<Rightarrow> None
      | Inr r \<Rightarrow>
         (case py_get (or_empty r) ''body'' of
            Inl e \<Rightarrow> None
          | Inr b \<Rightarrow>
             (case py_get (or_empty b) ''totalCount'' of
                Inl e \<Rightarrow> None
              | Inr tc \<Rightarrow> (if tc \<noteq> JNull then py_int tc else None))))"

text \<open>\<^verbatim>\<open>r.headers.get("Content-Type", "")\<close>\<close>

definition content_type :: "response \<Rightarrow> string" where
  "content_type r = (case content_type_header r of None \<Rightarrow> [] | Some c \<Rightarrow> c)"

text \<open>
  \<^verbatim>\<open>requests.get\<close> may raise; \<^verbatim>\<open>raise_for_status\<close> raises for a status from 400 to
  599; the body is then handed to \<open>extract_items\<close>.
\<close>

definition request_page :: "env \<Rightarrow> string \<Rightarrow> pydict \<Rightarrow> error + (pydict list \<times> json)" where
  "request_page E url params =
     (case requests_get E url params of
        Inl e \<Rightarrow> Inl e
      | Inr r \<Rightarrow>
          if 400 \<le> status_code r \<and> status_code r < 600 then Inl (HTTPError (status_code r))
          else extract_items E (resp_text r) (content_type r))"

definition page_params :: "env \<Rightarrow> pydict \<Rightarrow> int \<Rightarrow> pydict" where
  "page_params E base_params page =
     AList.update ''returnType'' (JStr (RETURN_TYPE E))
       (AList.update ''serviceKey'' (JStr (SERVICE_KEY E))
         (AList.update ''numOfRows'' (JInt (NUM_OF_ROWS E))
           (AList.update ''pageNo'' (JInt page) base_params)))"

text \<open>One turn of the loop body: raise, break with the items so far, or go on.\<close>

datatype step = Raise error | Break "pydict list" | Next "pydict list"

definition paginate_body :: "env \<Rightarrow> string \<Rightarrow> pydict \<Rightarrow> int \<Rightarrow> pydict list \<Rightarrow> step" where
  "paginate_body E url base_params page all_items =
     (case request_page E url (page_params E base_params page) of
        Inl e \<Rightarrow> Raise e
      | Inr (items, meta) \<Rightarrow>
          if items = [] then Break all_items
          else
            (let all_items' = all_items @ items;
                 total_count = extract_total_count meta in
             if total_count \<noteq> None \<and> the total_count \<le> int (length all_items') then Break all_items'
             else if int (length items) < NUM_OF_ROWS E then Break all_items'
             else Next all_items'))"

text \<open>
  The loop of \<^verbatim>\<open>paginate\<close>. Besides the result (the exception raised, or the items
  returned) it gives the page numbers it requested, in order. The pause between two pages
  is left out.
\<close>

function paginate_loop ::
  "env \<Rightarrow> string \<Rightarrow> pydict \<Rightarrow> int \<Rightarrow> pydict list \<Rightarrow> int list \<Rightarrow> int list \<times> (error + pydict list)" where
  "paginate_loop E url base_params page all_items requested =
     (if page \<le> MAX_PAGES E then
        (case paginate_body E url base_params page all_items of
           Raise e \<Rightarrow> (requested @ [page], Inl e)
         | Break items \<Rightarrow> (requested @ [page], Inr items)
         | Next items \<Rightarrow> paginate_loop E url base_params (page + 1) items (requested @ [page]))
      else (requested, Inr all_items))"
  by pat_completeness auto
termination
  by (relation "measure (\<lambda>(E, url, base_params, page, all_items, requested). nat (MAX_PAGES E + 1 - page))") auto

definition paginate :: "env \<Rightarrow> string \<Rightarrow> pydict \<Rightarrow> int list \<times> (error + pydict list)" where
  "paginate E url base_params = paginate_loop E url base_params 1 [] []"

text \<open>The Records of one page, as \<^verbatim>\<open>request_page\<close> returns them (none when it raises).\<close>

definition page_items :: "env \<Rightarrow> string \<Rightarrow> pydict \<Rightarrow> int \<Rightarrow> pydict list" where
  "page_items E url base_params page =
     (case request_page E url (page_params E base_params page) of
        Inl e \<Rightarrow> []
      | Inr (items, meta) \<Rightarrow> items)"

section \<open>Regular expressions\<close>

text \<open>
  The fragment of Python's \<^verbatim>\<open>re\<close> that the source uses, matched by derivatives:
  \<^verbatim>\<open>re.fullmatch(r, s)\<close> succeeds exactly when the whole of \<open>s\<close> is in the language of
  \<open>r\<close>. \<^verbatim>\<open>\d\<close> is an ASCII digit.
\<close>

datatype rexp =
    RNone
  | REps
  | RChr char
  | RDigit
  | RAlt rexp rexp
  | RSeq rexp rexp
  | RStar rexp

definition ROpt :: "rexp \<Rightarrow> rexp" where
  "ROpt r = RAlt r REps"

definition RPlus :: "rexp \<Rightarrow> rexp" where
  "RPlus r = RSeq r (RStar r)"

fun RRep :: "nat \<Rightarrow> rexp \<Rightarrow> rexp" where
  "RRep 0 r = REps"
| "RRep (Suc n) r = RSeq r (RRep n r)"

fun nullable :: "rexp \<Rightarrow> bool" where
  "nullable RNone = False"
| "nullable REps = True"
| "nullable (RChr c) = False"
| "nullable RDigit = False"
| "nullable (RAlt r s) = (nullable r \<or> nullable s)"
| "nullable (RSeq r s) = (nullable r \<and> nullable s)"
| "nullable (RStar r) = True"

fun deriv :: "char \<Rightarrow> rexp \<Rightarrow> rexp" where
  "deriv c RNone = RNone"
| "deriv c REps = RNone"
| "deriv c (RChr d) = (if c = d then REps else RNone)"
| "deriv c RDigit = (if is_digit c then REps else RNone)"
| "deriv c (RAlt r s) = RAlt (deriv c r) (deriv c s)"
| "deriv c (RSeq r s) =
     (if nullable r then RAlt (RSeq (deriv c r) s) (deriv c s) else RSeq (deriv c r) s)"
| "deriv c (RStar r) = RSeq (deriv c r) (RStar r)"

definition fullmatch :: "rexp \<Rightarrow> string \<Rightarrow> bool" where
  "fullmatch r s = nullable (fold deriv s r)"

subsection \<open>Languages\<close>

text \<open>The languages, to state what a pattern matches.\<close>

definition conc :: "string set \<Rightarrow> string set \<Rightarrow> string set" where
  "conc A B = {u @ v | u v. u \<in> A \<and> v \<in> B}"

inductive_set star :: "string set \<Rightarrow> string set" for A :: "string set" where
  star_empty: "[] \<in> star A"
| star_more: "u \<in> A \<Longrightarrow> v \<in> star A \<Longrightarrow> u @ v \<in> star A"

fun lang :: "rexp \<Rightarrow> string set" where
  "lang RNone = {}"
| "lang REps = {[]}"
| "lang (RChr c) = {[c]}"
| "lang RDigit = {[c] | c. is_digit c}"
| "lang (RAlt r s) = lang r \<union> lang s"
| "lang (RSeq r s) = conc (lang r) (lang s)"
| "lang (RStar r) = star (lang r)"

section \<open>Type Inference Engine\<close>

text \<open>The patterns of \<^verbatim>\<open>infer_type\<close>: \<^verbatim>\<open>-?\d+(\.\d+)?\<close>, \<^verbatim>\<open>-?\d+\<close>, \<^verbatim>\<open>\d{8}\<close>, \<^verbatim>\<open>\d{6}\<close>
  and \<^verbatim>\<open>\d{4}-\d{2}-\d{2}\<close>.\<close>

definition number_re :: rexp where
  "number_re = RSeq (ROpt (RChr CHR ''-''))
                 (RSeq (RPlus RDigit) (ROpt (RSeq (RChr CHR ''.'') (RPlus RDigit))))"

definition int_re :: rexp where
  "int_re = RSeq (ROpt (RChr CHR ''-'')) (RPlus RDigit)"

definition date8_re :: rexp where
  "date8_re = RRep 8 RDigit"

definition date6_re :: rexp where
  "date6_re = RRep 6 RDigit"

definition date_iso_re :: rexp where
  "date_iso_re = RSeq (RRep 4 RDigit) (RSeq (RChr CHR ''-'')
                   (RSeq (RRep 2 RDigit) (RSeq (RChr CHR ''-'') (RRep 2 RDigit))))"

definition is_number :: "string \<Rightarrow> bool" where
  "is_number x = fullmatch number_re x"

definition is_date :: "string \<Rightarrow> bool" where
  "is_date x = (fullmatch date8_re x \<or> fullmatch date6_re x \<or> fullmatch date_iso_re x)"

definition is_integer :: "string \<Rightarrow> bool" where
  "is_integer x = fullmatch int_re x"

text \<open>The five results of \<^verbatim>\<open>infer_type\<close>: the strings unknown, date, int, float, string.\<close>

datatype inferred = TUnknown | TDate | TInt | TFloat | TString

text \<open>
  A column is a list of cells, a string or None (null or absent). The mean of the 0/1
  values and its comparison with 0.9 are taken in exact rational arithmetic.
\<close>

definition dropna :: "'a option list \<Rightarrow> 'a list" where
  "dropna series = map the (filter (\<lambda>v. v \<noteq> None) series)"

definition astype_float :: "bool list \<Rightarrow> rat list" where
  "astype_float bs = map (\<lambda>b. if b then 1 else 0) bs"

definition mean :: "rat list \<Rightarrow> rat" where
  "mean xs = sum_list xs / of_nat (length xs)"

definition infer_type :: "string option list \<Rightarrow> inferred" where
  "infer_type series =
     (let s = map strip (dropna series);
          s = filter (\<lambda>x. x \<noteq> []) s
      in if s = [] then TUnknown
         else
           (let num_ratio = mean (astype_float (map is_number s));
                date_ratio = mean (astype_float (map is_date s))
            in if 9 / 10 \<le> date_ratio then TDate
               else if 9 / 10 \<le> num_ratio then
                 (let int_ratio = mean (astype_float (map is_integer s))
                  in if 9 / 10 \<le> int_ratio then TInt else TFloat)
               else TString))"

subsection \<open>The classification in the words of the spec\<close>

text \<open>
  Number-shaped: an optional leading minus sign, digits, optionally a point followed by
  digits. Integer-shaped: an optional minus sign and digits only. Date-shaped: exactly 8
  digits, exactly 6 digits, or YYYY-MM-DD. The ratios are fractions of the cleaned values.
\<close>

definition unsigned_part :: "string \<Rightarrow> string" where
  "unsigned_part x = (case x of [] \<Rightarrow> [] | c # r \<Rightarrow> if c = CHR ''-'' then r else x)"

definition spec_integer_shaped :: "string \<Rightarrow> bool" where
  "spec_integer_shaped x = (let y = unsigned_part x in y \<noteq> [] \<and> list_all is_digit y)"

definition spec_number_shaped :: "string \<Rightarrow> bool" where
  "spec_number_shaped x =
     (let y = unsigned_part x;
          a = takeWhile is_digit y;
          b = dropWhile is_digit y
      in a \<noteq> [] \<and> (b = [] \<or> (hd b = CHR ''.'' \<and> tl b \<noteq> [] \<and> list_all is_digit (tl b))))"

definition spec_date_shaped :: "string \<Rightarrow> bool" where
  "spec_date_shaped x =
     ((list_all is_digit x \<and> (length x = 8 \<or> length x = 6)) \<or>
      (length x = 10 \<and> list_all is_digit (take 4 x) \<and> x ! 4 = CHR ''-'' \<and>
       list_all is_digit (take 2 (drop 5 x)) \<and> x ! 7 = CHR ''-'' \<and>
       list_all is_digit (drop 8 x)))"

definition spec_fraction :: "('a \<Rightarrow> bool) \<Rightarrow> 'a list \<Rightarrow> rat" where
  "spec_fraction P xs = of_nat (length (filter P xs)) / of_nat (length xs)"

definition spec_cleaned :: "string option list \<Rightarrow> string list" where
  "spec_cleaned vs = filter (\<lambda>x. x \<noteq> []) (map strip (dropna vs))"

definition spec_infer_type :: "string option list \<Rightarrow> inferred" where
  "spec_infer_type vs =
     (if spec_cleaned vs = [] then TUnknown
      else if 9 / 10 \<le> spec_fraction spec_date_shaped (spec_cleaned vs) then TDate
      else if 9 / 10 \<le> spec_fraction spec_number_shaped (spec_cleaned vs) then
        (if 9 / 10 \<le> spec_fraction spec_integer_shaped (spec_cleaned vs) then TInt else TFloat)
      else TString)"

section \<open>Schema Summarizer\<close>

text \<open>
  A pandas DataFrame whose cells are strings or missing (None stands for both a null
  value and an absent field): the number of rows and the columns in order, each with its
  cells. Numeric cells are outside the model.
\<close>

record dataframe =
  df_len :: nat
  df_cols :: "(string \<times> string option list) list"

text \<open>A value of \<^verbatim>\<open>min\<close>/\<^verbatim>\<open>max\<close>: None, a float, a string, or an int (a length).\<close>

datatype 'n extremum = VNone | VFloat 'n | VStr string | VInt nat

record 'n column_profile =
  column :: string
  inferred_type :: inferred
  missing_rate :: rat
  nunique :: nat
  minv :: "'n extremum"
  maxv :: "'n extremum"

text \<open>
  Python floats, for \<^verbatim>\<open>missing_rate\<close>: a double is the rational it stands for, and
  every operation gives the double nearest to the exact result, a tie going to the even
  mantissa (53 bits; the values here are far from overflow and underflow).
  \<^verbatim>\<open>int.bit_length\<close> finds the exponent.
\<close>

function bit_length :: "int \<Rightarrow> nat" where
  "bit_length a = (if a \<le> 0 then 0 else Suc (bit_length (a div 2)))"
  by pat_completeness auto
termination
  by (relation "measure nat") auto

declare bit_length.simps [simp del]

definition round_half_even :: "rat \<Rightarrow> int" where
  "round_half_even y =
     (let f = \<lfloor>y\<rfloor>;
          d = y - of_int f
      in if d < 1 / 2 then f
         else if 1 / 2 < d then f + 1
         else if even f then f else f + 1)"

text \<open>The exponent \<open>e\<close> of a positive \<open>x\<close>: \<open>2 ^ e \<le> x < 2 ^ (e + 1)\<close>.\<close>

definition float_exponent :: "rat \<Rightarrow> int" where
  "float_exponent x =
     (let a = fst (quotient_of x);
          b = snd (quotient_of x);
          d = int (bit_length a) - int (bit_length b)
      in if power_int 2 d \<le> x then d else d - 1)"

text \<open>The double nearest to a rational.\<close>

definition fl :: "rat \<Rightarrow> rat" where
  "fl x =
     (if x = 0 then 0
      else
        (let u = power_int 2 (float_exponent \<bar>x\<bar> - 52)
         in sgn x * of_int (round_half_even (\<bar>x\<bar> / u)) * u))"

text \<open>\<^verbatim>\<open>k / n\<close> for two ints, and \<^verbatim>\<open>a - b\<close> for two floats.\<close>

definition float_div :: "nat \<Rightarrow> nat \<Rightarrow> rat" where
  "float_div k n = fl (of_nat k / of_nat n)"

definition float_sub :: "rat \<Rightarrow> rat \<Rightarrow> rat" where
  "float_sub a b = fl (a - b)"

text \<open>
  \<^verbatim>\<open>round(x, ndigits)\<close> for a float: the exact value of the double is rounded to
  \<open>ndigits\<close> decimal places, a tie to the even digit, and the double nearest to that
  decimal is returned.
\<close>

definition py_round :: "rat \<Rightarrow> nat \<Rightarrow> rat" where
  "py_round x ndigits = fl (of_int (round_half_even (x * 10 ^ ndigits)) / 10 ^ ndigits)"

text \<open>
  The three branches that set \<^verbatim>\<open>minv\<close> and \<^verbatim>\<open>maxv\<close>. The conversion
  \<^verbatim>\<open>pd.to_numeric(..., errors="coerce")\<close> is a parameter: the number a string stands for,
  or None where pandas gives NaN; the numbers are any linear order.
\<close>

definition extrema ::
  "inferred \<Rightarrow> (string \<Rightarrow> 'n::linorder option) \<Rightarrow> string list \<Rightarrow> 'n extremum \<times> 'n extremum" where
  "extrema inferred to_numeric nonnull =
     (if inferred = TInt \<or> inferred = TFloat then
        (let nums = dropna (map to_numeric nonnull)
         in if nums \<noteq> [] then (VFloat (Min (set nums)), VFloat (Max (set nums)))
            else (VNone, VNone))
      else if inferred = TDate then
        (let vals = map strip nonnull;
             vals = filter (\<lambda>x. x \<noteq> []) vals
         in if vals \<noteq> [] then (VStr (Min (set vals)), VStr (Max (set vals)))
            else (VNone, VNone))
      else
        (let vals = nonnull
         in if vals \<noteq> [] then
              (let lengths = map length vals
               in (VInt (Min (set lengths)), VInt (Max (set lengths))))
            else (VNone, VNone)))"

text \<open>The body of the loop over \<^verbatim>\<open>df.columns\<close>: one summary row.\<close>

definition summarize_column ::
  "(string \<Rightarrow> 'n::linorder option) \<Rightarrow> dataframe \<Rightarrow> string \<times> string option list \<Rightarrow> 'n column_profile" where
  "summarize_column to_numeric df cs =
     (let col = fst cs;
          ser = snd cs;
          inferred = infer_type ser;
          nonnull = dropna ser;
          missing = float_sub 1 (if df_len df \<noteq> 0 then float_div (length nonnull) (df_len df) else 0);
          nuniq = (if length nonnull \<noteq> 0 then card (set nonnull) else 0);
          mm = extrema inferred to_numeric nonnull
      in \<lparr>column = col, inferred_type = inferred, missing_rate = py_round missing 4,
          nunique = nuniq, minv = fst mm, maxv = snd mm\<rparr>)"

text \<open>
  \<^verbatim>\<open>pd.DataFrame(summary_rows).sort_values("column")\<close>: a frame built from no rows has
  no column named \<^verbatim>\<open>column\<close>, and sorting by it raises KeyError.
\<close>

definition summarize_dataframe ::
  "(string \<Rightarrow> 'n::linorder option) \<Rightarrow> dataframe \<Rightarrow> error + 'n column_profile list" where
  "summarize_dataframe to_numeric df =
     (let summary_rows = map (summarize_column to_numeric df) (df_cols df)
      in if summary_rows = [] then Inl KeyError
         else Inr (sort_key column summary_rows))"

text \<open>
  \<^verbatim>\<open>pd.DataFrame(items)\<close>, as \<^verbatim>\<open>main\<close> builds it from the Records: one row per Record,
  the columns are the fields in the order they are first seen, an absent field is a
  missing cell.
\<close>

type_synonym row = "(string \<times> string option) list"

fun first_seen :: "'a list \<Rightarrow> 'a list \<Rightarrow> 'a list" where
  "first_seen seen [] = []"
| "first_seen seen (k # ks) =
     (if k \<in> set seen then first_seen seen ks else k # first_seen (k # seen) ks)"

definition cell :: "row \<Rightarrow> string \<Rightarrow> string option" where
  "cell r k = (case map_of r k of None \<Rightarrow> None | Some v \<Rightarrow> v)"

definition DataFrame :: "row list \<Rightarrow> dataframe" where
  "DataFrame items =
     \<lparr>df_len = length items,
      df_cols = map (\<lambda>k. (k, map (\<lambda>r. cell r k) items))
                  (first_seen [] (concat (map (map fst) items)))\<rparr>"

text \<open>
  The part of the loop of \<^verbatim>\<open>main\<close> that decides whether a Dataset is summarized: an
  endpoint without items is skipped (None).
\<close>

definition main_step ::
  "(string \<Rightarrow> 'n::linorder option) \<Rightarrow> row list \<Rightarrow> (error + 'n column_profile list) option" where
  "main_step to_numeric items =
     (if items = [] then None else Some (summarize_dataframe to_numeric (DataFrame items)))"

text \<open>The Records of a Dataset in which a field is present and not null.\<close>

definition present_count :: "row list \<Rightarrow> string \<Rightarrow> nat" where
  "present_count ds k = length (filter (\<lambda>r. cell r k \<noteq> None) ds)"

section \<open>Mock endpoints\<close>

text \<open>
  A mock endpoint answers the page number of the request with a JSON text; its parser
  knows the texts the endpoint serves.
\<close>

definition mock_response :: "string \<Rightarrow> response" where
  "mock_response body =
     \<lparr>status_code = 200, resp_text = body, content_type_header = Some ''application/json''\<rparr>"

definition mock_env :: "(int \<Rightarrow> string) \<Rightarrow> (string \<times> json) list \<Rightarrow> int \<Rightarrow> int \<Rightarrow> env" where
  "mock_env serve parsed num_rows max_pages =
     \<lparr>requests_get = (\<lambda>url params.
          case map_of params ''pageNo'' of
            Some (JInt p) \<Rightarrow> Inr (mock_response (serve p))
          | _ \<Rightarrow> Inl TransportError),
      json_loads = map_of parsed,
      ET_fromstring = (\<lambda>s. None),
      NUM_OF_ROWS = num_rows,
      MAX_PAGES = max_pages,
      SERVICE_KEY = ''key'',
      RETURN_TYPE = ''JSON''\<rparr>"

text \<open>An endpoint that always returns a full page of two Records, with a cap of five pages.\<close>

definition full_text :: string where
  \<open>full_text = ''[{"a":"1"},{"a":"2"}]''\<close>

definition full_json :: json where
  "full_json = JArr [JObj [(''a'', JStr ''1'')], JObj [(''a'', JStr ''2'')]]"

definition full_env :: env where
  "full_env = mock_env (\<lambda>p. full_text) [(full_text, full_json)] 2 5"

text \<open>An endpoint that declares three items and delivers pages of two.\<close>

definition over_text :: string where
  \<open>over_text = ''{"response":{"body":{"items":[{"a":"1"},{"a":"2"}],"totalCount":3}}}''\<close>

definition over_json :: json where
  "over_json = JObj [(''response'', JObj [(''body'',
     JObj [(''items'', JArr [JObj [(''a'', JStr ''1'')], JObj [(''a'', JStr ''2'')]]),
           (''totalCount'', JInt 3)])])]"

definition over_env :: env where
  "over_env = mock_env (\<lambda>p. over_text) [(over_text, over_json)] 2 5"

text \<open>
  An endpoint that declares 250 items and delivers them in pages of 100, 100 and 50
  (and nothing after that).
\<close>

definition item_text :: string where
  \<open>item_text = ''{"a":"1"}''\<close>

definition mock_item :: json where
  "mock_item = JObj [(''a'', JStr ''1'')]"

fun join_comma :: "string list \<Rightarrow> string" where
  "join_comma [] = []"
| "join_comma [x] = x"
| "join_comma (x # y # xs) = x @ '','' @ join_comma (y # xs)"

definition total_text :: "nat \<Rightarrow> string" where
  \<open>total_text n = ''{"response":{"body":{"items":['' @ join_comma (replicate n item_text) @
                   ''],"totalCount":250}}}''\<close>

definition total_json :: "nat \<Rightarrow> json" where
  "total_json n = JObj [(''response'', JObj [(''body'',
     JObj [(''items'', JArr (replicate n mock_item)), (''totalCount'', JInt 250)])])]"

definition total_env :: env where
  "total_env =
     mock_env (\<lambda>p. if p \<le> 2 then total_text 100 else if p = 3 then total_text 50 else total_text 0)
       [(total_text 100, total_json 100), (total_text 50, total_json 50),
        (total_text 0, total_json 0)] 100 50"

text \<open>An endpoint whose second page is the JSON text \<^verbatim>\<open>null\<close>.\<close>

definition null_env :: env where
  "null_env = mock_env (\<lambda>p. if p = 1 then full_text else ''null'')
                [(full_text, full_json), (''null'', JNull)] 2 5"

text \<open>Endpoints whose body is cut off in the middle, one JSON and one XML.\<close>

definition bad_json_text :: string where
  \<open>bad_json_text = ''{"response":''\<close>

definition bad_json_env :: env where
  "bad_json_env = mock_env (\<lambda>p. bad_json_text) [] 2 5"

definition bad_xml_response :: response where
  "bad_xml_response =
     \<lparr>status_code = 200, resp_text = ''<response><item>'',
      content_type_header = Some ''text/xml''\<rparr>"

definition bad_xml_env :: env where
  "bad_xml_env =
     \<lparr>requests_get = (\<lambda>url params. Inr bad_xml_response),
      json_loads = (\<lambda>s. None),
      ET_fromstring = (\<lambda>s. None),
      NUM_OF_ROWS = 2,
      MAX_PAGES = 5,
      SERVICE_KEY = ''key'',
      RETURN_TYPE = ''XML''\<rparr>"

text \<open>
  The value at the nested path response.body.items of the spec: present when every level
  is a mapping that has the key.
\<close>

definition spec_path_items :: "json \<Rightarrow> json option" where
  "spec_path_items data =
     (case data of
        JObj kv \<Rightarrow>
          (case map_of kv ''response'' of
             Some (JObj rkv) \<Rightarrow>
               (case map_of rkv ''body'' of
                  Some (JObj bkv) \<Rightarrow> map_of bkv ''items''
                | _ \<Rightarrow> None)
           | _ \<Rightarrow> None)
      | _ \<Rightarrow> None)"

text \<open>
  An intermediate value of that path is truthy and not a mapping: the value of
  \<^verbatim>\<open>response\<close>, or the value of \<^verbatim>\<open>body\<close> in a \<^verbatim>\<open>response\<close> that is a mapping.
\<close>

definition spec_path_blocked :: "json \<Rightarrow> bool" where
  "spec_path_blocked data =
     (case data of
        JObj kv \<Rightarrow>
          (case map_of kv ''response'' of
             Some (JObj rkv) \<Rightarrow>
               (case map_of rkv ''body'' of
                  Some b \<Rightarrow> truthy b \<and> \<not> is_dict b
                | None \<Rightarrow> False)
           | Some r \<Rightarrow> truthy r
           | None \<Rightarrow> False)
      | _ \<Rightarrow> False)"

text \<open>An endpoint that serves one JSON text on every page.\<close>

definition parse_env :: "string \<Rightarrow> json \<Rightarrow> env" where
  "parse_env body data = mock_env (\<lambda>p. body) [(body, data)] 2 5"

text \<open>A body with an empty \<^verbatim>\<open>response\<close> and a top-level \<^verbatim>\<open>items\<close>; one with only the
  top-level \<^verbatim>\<open>items\<close>; one whose \<^verbatim>\<open>response\<close> is a string; one whose
  \<^verbatim>\<open>response.body\<close> is a string.\<close>

definition shadow_text :: string where
  \<open>shadow_text = ''{"response":{},"items":[{"a":"1"}]}''\<close>

definition shadow_json :: json where
  "shadow_json = JObj [(''response'', JObj []), (''items'', JArr [JObj [(''a'', JStr ''1'')]])]"

definition top_text :: string where
  \<open>top_text = ''{"items":[{"a":"1"}]}''\<close>

definition top_json :: json where
  "top_json = JObj [(''items'', JArr [JObj [(''a'', JStr ''1'')]])]"

definition error_text :: string where
  \<open>error_text = ''{"response":"error"}''\<close>

definition error_json :: json where
  "error_json = JObj [(''response'', JStr ''error'')]"

definition oops_text :: string where
  \<open>oops_text = ''{"response":{"body":"oops"}}''\<close>

definition oops_json :: json where
  "oops_json = JObj [(''response'', JObj [(''body'', JStr ''oops'')])]"

text \<open>
  Datasets: a field present in 7 of 10 Records; a field present in 1 of 3; a field present
  in 7 of 160; a field that is blank in every Record; a date, a number and a string
  column. For these the numbers are parsed by \<open>int_of_str\<close>.
\<close>

definition ten_ds :: "row list" where
  "ten_ds = replicate 7 [(''a'', Some ''x'')] @ [[(''a'', None)], [(''b'', Some ''y'')], []]"

definition third_ds :: "row list" where
  "third_ds = [[(''a'', Some ''x'')], [(''a'', None)], []]"

definition tie_ds :: "row list" where
  "tie_ds = replicate 7 [(''a'', Some ''x'')] @ replicate 153 []"

definition blank_ds :: "row list" where
  "blank_ds = [[(''a'', Some '''')], [(''a'', Some '' '')]]"

definition third_profile :: "int column_profile" where
  "third_profile = \<lparr>column = ''a'', inferred_type = TString, missing_rate = fl (6667 / 10000),
                     nunique = 1, minv = VInt 1, maxv = VInt 1\<rparr>"

definition blank_profile :: "int column_profile" where
  "blank_profile = \<lparr>column = ''a'', inferred_type = TUnknown, missing_rate = 0,
                     nunique = 2, minv = VInt 0, maxv = VInt 1\<rparr>"

definition mixed_ds :: "row list" where
  "mixed_ds = [[(''d'', Some ''20250101''), (''n'', Some ''12''), (''s'', Some ''abc'')],
               [(''d'', Some ''202412''), (''n'', Some ''-7''), (''s'', Some ''z'')]]"

definition mixed_profiles :: "int column_profile list" where
  "mixed_profiles =
     [\<lparr>column = ''d'', inferred_type = TDate, missing_rate = 0, nunique = 2,
         minv = VStr ''202412'', maxv = VStr ''20250101''\<rparr>,
      \<lparr>column = ''n'', inferred_type = TInt, missing_rate = 0, nunique = 2,
         minv = VFloat (- 7), maxv = VFloat 12\<rparr>,
      \<lparr>column = ''s'', inferred_type = TString, missing_rate = 0, nunique = 2,
         minv = VInt 1, maxv = VInt 3\<rparr>]"

section \<open>Properties of the Paginator\<close>

lemma paginate_body_Next:
  "paginate_body E url bp page all_items = Next xs \<Longrightarrow> xs = all_items @ page_items E url bp page"
  by (auto simp: paginate_body_def page_items_def Let_def split: sum.splits prod.splits if_splits)

lemma paginate_body_Break:
  "paginate_body E url bp page all_items = Break xs \<Longrightarrow> xs = all_items @ page_items E url bp page"
  by (auto simp: paginate_body_def page_items_def Let_def split: sum.splits prod.splits if_splits)

lemma paginate_loop_unfold:
  "paginate_loop E url bp page all_items requested =
     (if page \<le> MAX_PAGES E then
        (case paginate_body E url bp page all_items of
           Raise e \<Rightarrow> (requested @ [page], Inl e)
         | Break items \<Rightarrow> (requested @ [page], Inr items)
         | Next items \<Rightarrow> paginate_loop E url bp (page + 1) items (requested @ [page]))
      else (requested, Inr all_items))"
  by (rule paginate_loop.simps)

lemma paginate_loop_Break:
  assumes "page \<le> MAX_PAGES E" "paginate_body E url bp page all_items = Break xs"
  shows "paginate_loop E url bp page all_items requested = (requested @ [page], Inr xs)"
  using assms by (subst paginate_loop_unfold) simp

lemma paginate_loop_Raise:
  assumes "page \<le> MAX_PAGES E" "paginate_body E url bp page all_items = Raise e"
  shows "paginate_loop E url bp page all_items requested = (requested @ [page], Inl e)"
  using assms by (subst paginate_loop_unfold) simp

lemma paginate_loop_done:
  "\<not> page \<le> MAX_PAGES E \<Longrightarrow>
   paginate_loop E url bp page all_items requested = (requested, Inr all_items)"
  by (subst paginate_loop_unfold) simp

text \<open>The pages already requested are only carried along.\<close>

lemma paginate_loop_requested:
  "nat (MAX_PAGES E + 1 - page) = n \<Longrightarrow>
   paginate_loop E url bp page all_items requested =
     (requested @ fst (paginate_loop E url bp page all_items []),
      snd (paginate_loop E url bp page all_items []))"
proof (induction n arbitrary: page all_items requested)
  case 0
  then have "\<not> page \<le> MAX_PAGES E" by simp
  then show ?case by (simp add: paginate_loop_done)
next
  case (Suc n)
  then have le: "page \<le> MAX_PAGES E" and n: "nat (MAX_PAGES E + 1 - (page + 1)) = n"
    by simp_all
  show ?case
  proof (cases "paginate_body E url bp page all_items")
    case (Raise e)
    with le show ?thesis by (simp add: paginate_loop_Raise)
  next
    case (Break xs)
    with le show ?thesis by (simp add: paginate_loop_Break)
  next
    case (Next xs)
    have a: "paginate_loop E url bp page all_items requested =
               paginate_loop E url bp (page + 1) xs (requested @ [page])"
      using le Next by (subst paginate_loop_unfold) simp
    have b: "paginate_loop E url bp page all_items [] =
               paginate_loop E url bp (page + 1) xs [page]"
      using le Next by (subst paginate_loop_unfold) simp
    have c: "paginate_loop E url bp (page + 1) xs (requested @ [page]) =
               ((requested @ [page]) @ fst (paginate_loop E url bp (page + 1) xs []),
                snd (paginate_loop E url bp (page + 1) xs []))"
      by (rule Suc.IH[OF n])
    have d: "paginate_loop E url bp (page + 1) xs [page] =
               ([page] @ fst (paginate_loop E url bp (page + 1) xs []),
                snd (paginate_loop E url bp (page + 1) xs []))"
      by (rule Suc.IH[OF n])
    show ?thesis
      unfolding a b c d by simp
  qed
qed

lemma paginate_loop_Next:
  assumes "page \<le> MAX_PAGES E" "paginate_body E url bp page all_items = Next xs"
  shows "paginate_loop E url bp page all_items requested =
          (requested @ page # fst (paginate_loop E url bp (page + 1) xs []),
           snd (paginate_loop E url bp (page + 1) xs []))"
proof -
  have "paginate_loop E url bp page all_items requested =
               paginate_loop E url bp (page + 1) xs (requested @ [page])"
    using assms by (subst paginate_loop_unfold) simp
  also have "\<dots> = ((requested @ [page]) @ fst (paginate_loop E url bp (page + 1) xs []),
           snd (paginate_loop E url bp (page + 1) xs []))"
    by (rule paginate_loop_requested[OF refl])
  finally show ?thesis by simp
qed

lemma paginate_loop_concat:
  "nat (MAX_PAGES E + 1 - page) = n \<Longrightarrow>
   paginate_loop E url bp page all_items [] = (reqs, Inr ds) \<Longrightarrow>
   ds = all_items @ concat (map (page_items E url bp) reqs)"
proof (induction n arbitrary: page all_items reqs)
  case 0
  then have "\<not> page \<le> MAX_PAGES E" by simp
  with 0 show ?case by (simp add: paginate_loop_done)
next
  case (Suc n)
  then have le: "page \<le> MAX_PAGES E" and n: "nat (MAX_PAGES E + 1 - (page + 1)) = n"
    by simp_all
  show ?case
  proof (cases "paginate_body E url bp page all_items")
    case (Raise e)
    with le Suc.prems(2) show ?thesis by (simp add: paginate_loop_Raise)
  next
    case (Break xs)
    with le Suc.prems(2) have "reqs = [page]" "ds = xs" by (simp_all add: paginate_loop_Break)
    with paginate_body_Break[OF Break] show ?thesis by simp
  next
    case (Next xs)
    obtain reqs' r where r: "paginate_loop E url bp (page + 1) xs [] = (reqs', r)"
      by (cases "paginate_loop E url bp (page + 1) xs []")
    from Suc.prems(2) paginate_loop_Next[OF le Next, of "[]"] r
    have "reqs = page # reqs'" "r = Inr ds" by simp_all
    with Suc.IH[OF n, of xs reqs'] r paginate_body_Next[OF Next] show ?thesis by simp
  qed
qed

text \<open>The pages requested are consecutive, and there are no more than the cap allows.\<close>

lemma paginate_loop_pages:
  "nat (MAX_PAGES E + 1 - page) = n \<Longrightarrow>
   \<exists>k\<le>n. fst (paginate_loop E url bp page all_items []) = map (\<lambda>i. page + int i) [0..<k]"
proof (induction n arbitrary: page all_items)
  case 0
  then have "\<not> page \<le> MAX_PAGES E" by simp
  then show ?case by (simp add: paginate_loop_done)
next
  case (Suc n)
  then have le: "page \<le> MAX_PAGES E" and n: "nat (MAX_PAGES E + 1 - (page + 1)) = n"
    by simp_all
  show ?case
  proof (cases "paginate_body E url bp page all_items")
    case (Raise e)
    with le have "fst (paginate_loop E url bp page all_items []) = map (\<lambda>i. page + int i) [0..<1]"
      by (simp add: paginate_loop_Raise)
    then show ?thesis by (intro exI[of _ 1]) simp
  next
    case (Break xs)
    with le have "fst (paginate_loop E url bp page all_items []) = map (\<lambda>i. page + int i) [0..<1]"
      by (simp add: paginate_loop_Break)
    then show ?thesis by (intro exI[of _ 1]) simp
  next
    case (Next xs)
    from Suc.IH[OF n, of xs] obtain k where k: "k \<le> n"
      "fst (paginate_loop E url bp (page + 1) xs []) = map (\<lambda>i. page + 1 + int i) [0..<k]"
      by blast
    have "fst (paginate_loop E url bp page all_items []) = page # map (\<lambda>i. page + 1 + int i) [0..<k]"
      using paginate_loop_Next[OF le Next, of "[]"] k(2) by simp
    also have "\<dots> = map (\<lambda>i. page + int i) [0..<Suc k]"
      by (simp add: upt_rec[of 0 "Suc k"] map_Suc_upt[symmetric] del: upt_Suc)
    finally show ?thesis using k(1) by (intro exI[of _ "Suc k"]) simp
  qed
qed

lemma paginate_loop_length:
  "length (fst (paginate_loop E url bp page all_items [])) \<le> nat (MAX_PAGES E + 1 - page)"
  using paginate_loop_pages[where E=E and page=page and url=url and bp=bp
      and all_items=all_items, OF refl] by auto

lemma paginate_body_full:
  assumes "request_page E url (page_params E bp page) = Inr (items, meta)"
    and "items \<noteq> []" and "int (length items) = NUM_OF_ROWS E"
    and "\<forall>tc. extract_total_count meta = Some tc \<longrightarrow> int (length all_items) + NUM_OF_ROWS E < tc"
  shows "paginate_body E url bp page all_items = Next (all_items @ items)"
  using assms by (auto simp: paginate_body_def Let_def)

lemma paginate_loop_full:
  assumes full: "\<forall>p\<in>{1..MAX_PAGES E}. \<exists>items meta.
             request_page E url (page_params E bp p) = Inr (items, meta) \<and> items \<noteq> [] \<and>
             int (length items) = NUM_OF_ROWS E \<and>
             (\<forall>tc. extract_total_count meta = Some tc \<longrightarrow> p * NUM_OF_ROWS E < tc)"
  shows "nat (MAX_PAGES E + 1 - page) = n \<Longrightarrow> 1 \<le> page \<Longrightarrow>
         int (length all_items) = (page - 1) * NUM_OF_ROWS E \<Longrightarrow>
         fst (paginate_loop E url bp page all_items []) = [page..MAX_PAGES E]"
proof (induction n arbitrary: page all_items)
  case 0
  then have "\<not> page \<le> MAX_PAGES E" by simp
  then show ?case by (simp add: paginate_loop_done)
next
  case (Suc n)
  then have le: "page \<le> MAX_PAGES E" and n: "nat (MAX_PAGES E + 1 - (page + 1)) = n"
    by simp_all
  from full le Suc.prems(2) obtain items meta where
    r: "request_page E url (page_params E bp page) = Inr (items, meta)" "items \<noteq> []"
       "int (length items) = NUM_OF_ROWS E"
       "\<forall>tc. extract_total_count meta = Some tc \<longrightarrow> page * NUM_OF_ROWS E < tc"
    by (metis atLeastAtMost_iff)
  have "page * NUM_OF_ROWS E = int (length all_items) + NUM_OF_ROWS E"
    using Suc.prems(3) by (simp add: algebra_simps)
  with r have nx: "paginate_body E url bp page all_items = Next (all_items @ items)"
    by (intro paginate_body_full) auto
  have len: "int (length (all_items @ items)) = (page + 1 - 1) * NUM_OF_ROWS E"
    using Suc.prems(3) r(3) by (simp add: algebra_simps)
  have "fst (paginate_loop E url bp (page + 1) (all_items @ items) []) = [page + 1..MAX_PAGES E]"
    using Suc.IH[OF n _ len] Suc.prems(2) by simp
  then show ?case
    using paginate_loop_Next[OF le nx, of "[]"] le by (simp add: upto_rec1[of page])
qed

subsection \<open>Evaluating the mock endpoints\<close>

lemma json_content_type: "is_json_response body ''application/json''"
  unfolding is_json_response_def by code_simp

lemma mock_request_page:
  "map_of parsed (serve page) = Some data \<Longrightarrow> items_obj data = Inr obj \<Longrightarrow>
   request_page (mock_env serve parsed n m) url (page_params (mock_env serve parsed n m) bp page) =
     Inr (normalize_items obj, data)"
  by (simp add: request_page_def mock_env_def mock_response_def page_params_def update_conv'
        extract_items_def content_type_def json_content_type)

lemma full_env_page:
  "request_page full_env url (page_params full_env bp p) =
     Inr ([[(''a'', JStr ''1'')], [(''a'', JStr ''2'')]], full_json)"
  unfolding full_env_def
  by (subst mock_request_page[where data=full_json and obj=full_json])
     (simp_all add: full_json_def items_obj_def)

lemma full_env_settings: "MAX_PAGES full_env = 5" "NUM_OF_ROWS full_env = 2"
  by (simp_all add: full_env_def mock_env_def)

lemma over_env_page:
  "request_page over_env url (page_params over_env bp p) =
     Inr ([[(''a'', JStr ''1'')], [(''a'', JStr ''2'')]], over_json)"
  unfolding over_env_def
  by (subst mock_request_page[where data=over_json
        and obj="JArr [JObj [(''a'', JStr ''1'')], JObj [(''a'', JStr ''2'')]]"])
     (simp_all add: over_json_def items_obj_def or_empty_def)

lemma over_env_settings: "MAX_PAGES over_env = 5" "NUM_OF_ROWS over_env = 2"
  by (simp_all add: over_env_def mock_env_def)

lemma over_json_total: "extract_total_count over_json = Some 3"
  by (simp add: extract_total_count_def over_json_def or_empty_def)

subsection \<open>The hard cap\<close>

text \<open>
  C8: whatever the endpoint does, \<open>paginate\<close> returns (the loop is a total function) after
  at most \<open>MAX_PAGES\<close> page requests; against an endpoint that returns a full page for
  every page up to the cap, with no declared total reached, it requests exactly the pages
  1 to \<open>MAX_PAGES\<close>, so with a cap of 5 exactly 5 requests.
\<close>

theorem paginate_hard_cap:
  "length (fst (paginate E url bp)) \<le> nat (MAX_PAGES E) \<and>
   ((\<forall>p\<in>{1..MAX_PAGES E}. \<exists>items meta.
        request_page E url (page_params E bp p) = Inr (items, meta) \<and> items \<noteq> [] \<and>
        int (length items) = NUM_OF_ROWS E \<and>
        (\<forall>tc. extract_total_count meta = Some tc \<longrightarrow> p * NUM_OF_ROWS E < tc))
    \<longrightarrow> fst (paginate E url bp) = [1..MAX_PAGES E] \<and>
        length (fst (paginate E url bp)) = nat (MAX_PAGES E))"
proof (intro conjI impI)
  show "length (fst (paginate E url bp)) \<le> nat (MAX_PAGES E)"
    using paginate_loop_length[of E url bp 1 "[]"] by (simp add: paginate_def)
next
  assume full: "\<forall>p\<in>{1..MAX_PAGES E}. \<exists>items meta.
             request_page E url (page_params E bp p) = Inr (items, meta) \<and> items \<noteq> [] \<and>
             int (length items) = NUM_OF_ROWS E \<and>
             (\<forall>tc. extract_total_count meta = Some tc \<longrightarrow> p * NUM_OF_ROWS E < tc)"
  show a: "fst (paginate E url bp) = [1..MAX_PAGES E]"
    unfolding paginate_def by (rule paginate_loop_full[OF full refl]) simp_all
  show "length (fst (paginate E url bp)) = nat (MAX_PAGES E)"
    unfolding a by simp
qed

theorem paginate_hard_cap_witness:
  "MAX_PAGES full_env = 5 \<and> fst (paginate full_env ''u'' []) = [1, 2, 3, 4, 5] \<and>
   length (fst (paginate full_env ''u'' [])) = 5"
proof -
  have none: "extract_total_count full_json = None"
    by (simp add: extract_total_count_def full_json_def)
  have full: "\<forall>p\<in>{1..MAX_PAGES full_env}. \<exists>items meta.
        request_page full_env ''u'' (page_params full_env [] p) = Inr (items, meta) \<and>
        items \<noteq> [] \<and> int (length items) = NUM_OF_ROWS full_env \<and>
        (\<forall>tc. extract_total_count meta = Some tc \<longrightarrow> p * NUM_OF_ROWS full_env < tc)"
    by (simp add: full_env_page full_env_settings none)
  have "[1..MAX_PAGES full_env] = [1, 2, 3, 4, 5]"
    by (simp add: full_env_settings upto_rec1)
  with paginate_hard_cap[of full_env "''u''" "[]"] full show ?thesis
    by (simp add: full_env_settings)
qed

subsection \<open>The Dataset is the concatenation of the pages\<close>

text \<open>
  C9: when \<open>paginate\<close> returns a Dataset, the pages it requested are 1, 2, ... in order and
  the Dataset is the concatenation, in that order, of the Records of every requested page
  (an empty page adds nothing): no Record is dropped or reordered, and the last page is
  kept in full even when the Dataset then exceeds the declared total.
\<close>

theorem paginate_concat:
  "paginate E url bp = (reqs, Inr ds) \<Longrightarrow>
     reqs = map (\<lambda>i. 1 + int i) [0..<length reqs] \<and>
     ds = concat (map (page_items E url bp) reqs)"
proof -
  assume a: "paginate E url bp = (reqs, Inr ds)"
  from paginate_loop_pages[where E=E and page=1 and url=url and bp=bp and all_items="[]", OF refl]
  obtain k where "fst (paginate_loop E url bp 1 [] []) = map (\<lambda>i. 1 + int i) [0..<k]"
    by blast
  with a have "reqs = map (\<lambda>i. 1 + int i) [0..<k]" by (simp add: paginate_def)
  moreover from this have "length reqs = k" by simp
  ultimately have "reqs = map (\<lambda>i. 1 + int i) [0..<length reqs]" by simp
  moreover have "ds = concat (map (page_items E url bp) reqs)"
    using paginate_loop_concat[where E=E and page=1 and url=url and bp=bp and all_items="[]",
        OF refl] a
    by (simp add: paginate_def)
  ultimately show ?thesis by blast
qed

lemma over_env_body1:
  "paginate_body over_env url bp p [] = Next [[(''a'', JStr ''1'')], [(''a'', JStr ''2'')]]"
  by (simp add: paginate_body_def over_env_page over_json_total over_env_settings)

lemma over_env_body2:
  "paginate_body over_env url bp p [[(''a'', JStr ''1'')], [(''a'', JStr ''2'')]] =
     Break [[(''a'', JStr ''1'')], [(''a'', JStr ''2'')], [(''a'', JStr ''1'')], [(''a'', JStr ''2'')]]"
  by (simp add: paginate_body_def over_env_page over_json_total over_env_settings)

lemma over_env_paginate:
  "paginate over_env ''u'' [] =
     ([1, 2], Inr [[(''a'', JStr ''1'')], [(''a'', JStr ''2'')],
                   [(''a'', JStr ''1'')], [(''a'', JStr ''2'')]])"
  by (simp add: paginate_def paginate_loop_unfold over_env_body1 over_env_body2 over_env_settings)

theorem paginate_concat_witness:
  "paginate over_env ''u'' [] =
     ([1, 2], Inr [[(''a'', JStr ''1'')], [(''a'', JStr ''2'')],
                   [(''a'', JStr ''1'')], [(''a'', JStr ''2'')]]) \<and>
   extract_total_count over_json = Some 3 \<and>
   [[(''a'', JStr ''1'')], [(''a'', JStr ''2'')], [(''a'', JStr ''1'')], [(''a'', JStr ''2'')]] =
     concat (map (page_items over_env ''u'' []) [1, 2])"
  using paginate_concat[OF over_env_paginate] over_env_paginate over_json_total by simp

subsection \<open>Declared-total termination\<close>

lemma paginate_body_total:
  assumes "request_page E url (page_params E bp page) = Inr (items, meta)" "items \<noteq> []"
    "extract_total_count meta = Some tc" "tc \<le> int (length (all_items @ items))"
  shows "paginate_body E url bp page all_items = Break (all_items @ items)"
  using assms by (simp add: paginate_body_def)

lemma paginate_body_more:
  assumes "request_page E url (page_params E bp page) = Inr (items, meta)" "items \<noteq> []"
    "extract_total_count meta = Some tc" "int (length (all_items @ items)) < tc"
    "NUM_OF_ROWS E \<le> int (length items)"
  shows "paginate_body E url bp page all_items = Next (all_items @ items)"
  using assms by (simp add: paginate_body_def)

lemma total_text_neq: "total_text 50 \<noteq> total_text 100"
  by code_simp

lemma total_json_items: "items_obj (total_json n) = Inr (JArr (replicate n mock_item))"
  by (simp add: total_json_def items_obj_def or_empty_def)

lemma total_json_total: "extract_total_count (total_json n) = Some 250"
  by (simp add: total_json_def extract_total_count_def or_empty_def)

lemma total_env_pages:
  "request_page total_env url (page_params total_env bp 1) =
     Inr (replicate 100 [(''a'', JStr ''1'')], total_json 100)"
  "request_page total_env url (page_params total_env bp 2) =
     Inr (replicate 100 [(''a'', JStr ''1'')], total_json 100)"
  "request_page total_env url (page_params total_env bp 3) =
     Inr (replicate 50 [(''a'', JStr ''1'')], total_json 50)"
  unfolding total_env_def
  by (subst mock_request_page[OF _ total_json_items]; simp add: total_text_neq mock_item_def)+

lemma total_env_settings: "NUM_OF_ROWS total_env = 100" "MAX_PAGES total_env = 50"
  by (simp_all add: total_env_def mock_env_def)

text \<open>
  C1: whenever a page's metadata declares a total and the accumulated Records reach it,
  the loop stops with that page; so with a page size of 100 and a cap of 50, against an
  endpoint that declares 250 and delivers pages of 100, 100 and 50 Records, \<open>paginate\<close>
  requests exactly the pages 1, 2, 3 and returns their 250 Records.
\<close>

theorem paginate_declared_total:
  "(page \<le> MAX_PAGES E \<longrightarrow>
    request_page E url (page_params E bp page) = Inr (items, meta) \<longrightarrow> items \<noteq> [] \<longrightarrow>
    extract_total_count meta = Some tc \<longrightarrow> tc \<le> int (length (all_items @ items)) \<longrightarrow>
      paginate_loop E url bp page all_items requested = (requested @ [page], Inr (all_items @ items)))
   \<and>
   (NUM_OF_ROWS E = 100 \<longrightarrow> MAX_PAGES E = 50 \<longrightarrow>
    request_page E url (page_params E bp 1) = Inr (i1, m1) \<longrightarrow> length i1 = 100 \<longrightarrow>
    extract_total_count m1 = Some 250 \<longrightarrow>
    request_page E url (page_params E bp 2) = Inr (i2, m2) \<longrightarrow> length i2 = 100 \<longrightarrow>
    extract_total_count m2 = Some 250 \<longrightarrow>
    request_page E url (page_params E bp 3) = Inr (i3, m3) \<longrightarrow> length i3 = 50 \<longrightarrow>
    extract_total_count m3 = Some 250 \<longrightarrow>
      paginate E url bp = ([1, 2, 3], Inr (i1 @ i2 @ i3)) \<and> length (i1 @ i2 @ i3) = 250)"
proof (intro conjI impI)
  assume "page \<le> MAX_PAGES E"
    "request_page E url (page_params E bp page) = Inr (items, meta)" "items \<noteq> []"
    "extract_total_count meta = Some tc" "tc \<le> int (length (all_items @ items))"
  then show "paginate_loop E url bp page all_items requested =
               (requested @ [page], Inr (all_items @ items))"
    by (intro paginate_loop_Break paginate_body_total)
next
  assume cfg: "NUM_OF_ROWS E = 100" "MAX_PAGES E = 50"
    and p1: "request_page E url (page_params E bp 1) = Inr (i1, m1)" "length i1 = 100"
      "extract_total_count m1 = Some 250"
    and p2: "request_page E url (page_params E bp 2) = Inr (i2, m2)" "length i2 = 100"
      "extract_total_count m2 = Some 250"
    and p3: "request_page E url (page_params E bp 3) = Inr (i3, m3)" "length i3 = 50"
      "extract_total_count m3 = Some 250"
  have ne: "i1 \<noteq> []" "i2 \<noteq> []" "i3 \<noteq> []"
    using p1(2) p2(2) p3(2) by auto
  have b1: "paginate_body E url bp 1 [] = Next ([] @ i1)"
    using p1 ne(1) cfg by (intro paginate_body_more[where tc=250]) simp_all
  have b2: "paginate_body E url bp 2 i1 = Next (i1 @ i2)"
    using p1(2) p2 ne(2) cfg by (intro paginate_body_more[where tc=250]) simp_all
  have b3: "paginate_body E url bp 3 (i1 @ i2) = Break ((i1 @ i2) @ i3)"
    using p1(2) p2(2) p3 ne(3) by (intro paginate_body_total[where tc=250]) simp_all
  have l3: "paginate_loop E url bp 3 (i1 @ i2) [] = ([3], Inr ((i1 @ i2) @ i3))"
    using paginate_loop_Break[OF _ b3, of "[]"] cfg by simp
  have l2: "paginate_loop E url bp 2 i1 [] = ([2, 3], Inr ((i1 @ i2) @ i3))"
    using paginate_loop_Next[OF _ b2, of "[]"] l3 cfg by simp
  have l1: "paginate_loop E url bp 1 [] [] = ([1, 2, 3], Inr ((i1 @ i2) @ i3))"
    using paginate_loop_Next[OF _ b1, of "[]"] l2 cfg by simp
  then show "paginate E url bp = ([1, 2, 3], Inr (i1 @ i2 @ i3))"
    by (simp add: paginate_def)
  show "length (i1 @ i2 @ i3) = 250"
    using p1(2) p2(2) p3(2) by simp
qed

theorem paginate_declared_total_witness:
  "paginate_loop total_env ''u'' [] 3 (replicate 200 [(''a'', JStr ''1'')]) [1, 2] =
     ([1, 2, 3], Inr (replicate 250 [(''a'', JStr ''1'')])) \<and>
   paginate total_env ''u'' [] = ([1, 2, 3], Inr (replicate 250 [(''a'', JStr ''1'')])) \<and>
   extract_total_count (total_json 50) = Some 250 \<and>
   length (replicate 250 [(''a'', JStr ''1'')]) = 250"
proof -
  have a: "replicate 100 [(''a'', JStr ''1'')] @ replicate 100 [(''a'', JStr ''1'')] @
             replicate 50 [(''a'', JStr ''1'')] = replicate 250 [(''a'', JStr ''1'')]"
    by (simp add: replicate_add[symmetric])
  have b: "replicate 200 [(''a'', JStr ''1'')] @ replicate 50 [(''a'', JStr ''1'')] =
             replicate 250 [(''a'', JStr ''1'')]"
    by (simp add: replicate_add[symmetric])
  show ?thesis
    using paginate_declared_total[of 3 total_env "''u''" "[]"
       "replicate 50 [(''a'', JStr ''1'')]" "total_json 50" 250
       "replicate 200 [(''a'', JStr ''1'')]" "[1, 2]"
       "replicate 100 [(''a'', JStr ''1'')]" "total_json 100"
       "replicate 100 [(''a'', JStr ''1'')]" "total_json 100"
       "replicate 50 [(''a'', JStr ''1'')]" "total_json 50"]
    by (simp add: total_env_settings total_env_pages total_json_total a b)
qed

subsection \<open>Malformed bodies and empty pages\<close>

lemma request_page_json_error:
  assumes "requests_get E url params = Inr r" "\<not> (400 \<le> status_code r \<and> status_code r < 600)"
    "is_json_response (resp_text r) (content_type r)" "json_loads E (resp_text r) = None"
  shows "request_page E url params = Inl JSONDecodeError"
  using assms by (simp add: request_page_def extract_items_def)

lemma request_page_xml_error:
  assumes "requests_get E url params = Inr r" "\<not> (400 \<le> status_code r \<and> status_code r < 600)"
    "\<not> is_json_response (resp_text r) (content_type r)" "ET_fromstring E (resp_text r) = None"
  shows "request_page E url params = Inl XMLParseError"
  using assms by (simp add: request_page_def extract_items_def)

lemma request_page_json_ok:
  assumes "requests_get E url params = Inr r" "\<not> (400 \<le> status_code r \<and> status_code r < 600)"
    "is_json_response (resp_text r) (content_type r)" "json_loads E (resp_text r) = Some data"
    "items_obj data = Inr obj"
  shows "request_page E url params = Inr (normalize_items obj, data)"
  using assms by (simp add: request_page_def extract_items_def)

lemma paginate_body_error:
  "request_page E url (page_params E bp page) = Inl e \<Longrightarrow>
   paginate_body E url bp page all_items = Raise e"
  by (simp add: paginate_body_def)

lemma paginate_body_empty:
  "request_page E url (page_params E bp page) = Inr ([], meta) \<Longrightarrow>
   paginate_body E url bp page all_items = Break all_items"
  by (simp add: paginate_body_def)

text \<open>
  C3 (as the code has it): a body that the JSON parser, or else the XML parser, rejects
  makes \<open>paginate\<close> raise the parser's error at that page, and no Dataset is returned;
  but a JSON value that yields no Records is not an error: the page counts as empty and
  ends the pagination with the Records accumulated so far.
\<close>

theorem malformed_body_raises:
  "(page \<le> MAX_PAGES E \<longrightarrow> requests_get E url (page_params E bp page) = Inr r \<longrightarrow>
    \<not> (400 \<le> status_code r \<and> status_code r < 600) \<longrightarrow>
    is_json_response (resp_text r) (content_type r) \<longrightarrow> json_loads E (resp_text r) = None \<longrightarrow>
      paginate_loop E url bp page all_items requested = (requested @ [page], Inl JSONDecodeError))
   \<and>
   (page \<le> MAX_PAGES E \<longrightarrow> requests_get E url (page_params E bp page) = Inr r \<longrightarrow>
    \<not> (400 \<le> status_code r \<and> status_code r < 600) \<longrightarrow>
    \<not> is_json_response (resp_text r) (content_type r) \<longrightarrow> ET_fromstring E (resp_text r) = None \<longrightarrow>
      paginate_loop E url bp page all_items requested = (requested @ [page], Inl XMLParseError))
   \<and>
   (page \<le> MAX_PAGES E \<longrightarrow> requests_get E url (page_params E bp page) = Inr r \<longrightarrow>
    \<not> (400 \<le> status_code r \<and> status_code r < 600) \<longrightarrow>
    is_json_response (resp_text r) (content_type r) \<longrightarrow> json_loads E (resp_text r) = Some data \<longrightarrow>
    items_obj data = Inr obj \<longrightarrow> normalize_items obj = [] \<longrightarrow>
      paginate_loop E url bp page all_items requested = (requested @ [page], Inr all_items))"
proof (intro conjI impI)
  assume le: "page \<le> MAX_PAGES E"
    and r: "requests_get E url (page_params E bp page) = Inr r"
      "\<not> (400 \<le> status_code r \<and> status_code r < 600)"
  {
    assume "is_json_response (resp_text r) (content_type r)" "json_loads E (resp_text r) = None"
    with r have "request_page E url (page_params E bp page) = Inl JSONDecodeError"
      by (rule request_page_json_error)
    then show "paginate_loop E url bp page all_items requested =
                 (requested @ [page], Inl JSONDecodeError)"
      by (intro paginate_loop_Raise le paginate_body_error)
  }
  {
    assume "\<not> is_json_response (resp_text r) (content_type r)" "ET_fromstring E (resp_text r) = None"
    with r have "request_page E url (page_params E bp page) = Inl XMLParseError"
      by (rule request_page_xml_error)
    then show "paginate_loop E url bp page all_items requested =
                 (requested @ [page], Inl XMLParseError)"
      by (intro paginate_loop_Raise le paginate_body_error)
  }
  {
    assume "is_json_response (resp_text r) (content_type r)" "json_loads E (resp_text r) = Some data"
      "items_obj data = Inr obj" and e: "normalize_items obj = []"
    with r have "request_page E url (page_params E bp page) = Inr (normalize_items obj, data)"
      by (intro request_page_json_ok)
    with e have "request_page E url (page_params E bp page) = Inr ([], data)"
      by simp
    then show "paginate_loop E url bp page all_items requested = (requested @ [page], Inr all_items)"
      by (intro paginate_loop_Break le paginate_body_empty)
  }
qed

lemma mock_get:
  "requests_get (mock_env serve parsed n m) url (page_params (mock_env serve parsed n m) bp page) =
     Inr (mock_response (serve page))"
  by (simp add: mock_env_def page_params_def update_conv')

lemma mock_response_simps:
  "status_code (mock_response b) = 200" "resp_text (mock_response b) = b"
  "content_type (mock_response b) = ''application/json''"
  by (simp_all add: mock_response_def content_type_def)

lemma mock_settings:
  "MAX_PAGES (mock_env serve parsed n m) = m" "NUM_OF_ROWS (mock_env serve parsed n m) = n"
  "json_loads (mock_env serve parsed n m) = map_of parsed"
  by (simp_all add: mock_env_def)

lemma null_env_page1:
  "request_page null_env url (page_params null_env bp 1) =
     Inr ([[(''a'', JStr ''1'')], [(''a'', JStr ''2'')]], full_json)"
  unfolding null_env_def
  by (subst mock_request_page[where data=full_json and obj=full_json])
     (simp_all add: full_json_def items_obj_def)

lemma null_env_body1:
  "paginate_body null_env url bp 1 [] = Next [[(''a'', JStr ''1'')], [(''a'', JStr ''2'')]]"
proof -
  have "extract_total_count full_json = None"
    by (simp add: extract_total_count_def full_json_def)
  moreover have "NUM_OF_ROWS null_env = 2"
    by (simp add: null_env_def mock_settings)
  ultimately show ?thesis
    by (simp add: paginate_body_def null_env_page1)
qed

lemma null_env_settings: "MAX_PAGES null_env = 5" "NUM_OF_ROWS null_env = 2"
  by (simp_all add: null_env_def mock_settings)

lemma null_env_get:
  "requests_get null_env url (page_params null_env bp p) =
     Inr (mock_response (if p = 1 then full_text else ''null''))"
  unfolding null_env_def by (rule mock_get)

lemma null_env_loads: "json_loads null_env ''null'' = Some JNull"
  by (simp add: null_env_def mock_settings full_text_def)

lemma null_env_body2:
  "paginate_body null_env url bp 2 all_items = Break all_items"
proof -
  have "request_page null_env url (page_params null_env bp 2) = Inr (normalize_items JNull, JNull)"
    by (rule request_page_json_ok[where r="mock_response ''null''"])
       (simp_all add: null_env_get mock_response_simps json_content_type null_env_loads
          items_obj_def)
  then show ?thesis by (simp add: paginate_body_def)
qed

theorem malformed_body_raises_witness:
  "paginate_loop bad_json_env ''u'' [] 1 [] [] = ([1], Inl JSONDecodeError) \<and>
   paginate_loop bad_xml_env ''u'' [] 1 [] [] = ([1], Inl XMLParseError) \<and>
   paginate_loop null_env ''u'' [] 2 [[(''a'', JStr ''1'')], [(''a'', JStr ''2'')]] [1] =
     ([1, 2], Inr [[(''a'', JStr ''1'')], [(''a'', JStr ''2'')]])"
proof -
  have x: "\<not> is_json_response ''<response><item>'' ''text/xml''"
    unfolding is_json_response_def by code_simp
  have a: "paginate_loop bad_json_env ''u'' [] 1 [] [] = ([1], Inl JSONDecodeError)"
    using malformed_body_raises[of 1 bad_json_env "''u''" "[]"
        "mock_response bad_json_text" "[]" "[]"]
    by (simp add: bad_json_env_def mock_get mock_response_simps mock_settings json_content_type)
  have b: "paginate_loop bad_xml_env ''u'' [] 1 [] [] = ([1], Inl XMLParseError)"
    using malformed_body_raises[of 1 bad_xml_env "''u''" "[]" bad_xml_response "[]" "[]"] x
    by (simp add: bad_xml_env_def bad_xml_response_def content_type_def)
  have c: "paginate_loop null_env ''u'' [] 2 [[(''a'', JStr ''1'')], [(''a'', JStr ''2'')]] [1] =
     ([1, 2], Inr [[(''a'', JStr ''1'')], [(''a'', JStr ''2'')]])"
    using malformed_body_raises[of 2 null_env "''u''" "[]" "mock_response ''null''"
        "[[(''a'', JStr ''1'')], [(''a'', JStr ''2'')]]" "[1]" JNull JNull]
    by (simp add: null_env_get null_env_settings null_env_loads mock_response_simps
          json_content_type items_obj_def)
  from a b c show ?thesis by blast
qed

theorem null_body_counterexample:
  "json_loads null_env ''null'' = Some JNull \<and>
   paginate null_env ''u'' [] = ([1, 2], Inr [[(''a'', JStr ''1'')], [(''a'', JStr ''2'')]])"
  by (simp add: null_env_loads paginate_def paginate_loop_unfold null_env_body1 null_env_body2
        null_env_settings)


section \<open>Properties of the Response Normalizer\<close>

lemma map_of_nonempty: "map_of kv k = Some v \<Longrightarrow> kv \<noteq> []"
  by auto

lemma items_obj_path:
  "is_dict data \<Longrightarrow> has_key data ''response'' \<Longrightarrow> spec_path_items data = Some it \<Longrightarrow>
   items_obj data = Inr it"
  by (auto simp: items_obj_def spec_path_items_def or_empty_def
           split: json.splits option.splits dest: map_of_nonempty)

lemma py_get_cases: "py_get x k = Inl AttributeError \<or> (\<exists>v. py_get x k = Inr v)"
  by (cases x) simp_all

lemma items_obj_no_path:
  "is_dict data \<Longrightarrow> has_key data ''response'' \<Longrightarrow> spec_path_items data = None \<Longrightarrow>
   items_obj data = Inr JNull \<or> items_obj data = Inl AttributeError"
  apply (cases data; simp add: items_obj_def spec_path_items_def)
  subgoal for kv
    apply (cases "map_of kv ''response''"; simp)
    subgoal for r
      apply (cases r; simp add: or_empty_def)
      subgoal for rkv
        apply (cases "map_of rkv ''body''"; simp)
        subgoal for b
          by (cases b; simp; cases "rkv = []"; auto split: option.splits)
        done
      done
    done
  done

lemma items_obj_top:
  "map_of kv ''response'' = None \<Longrightarrow> map_of kv ''items'' = Some it \<Longrightarrow>
   items_obj (JObj kv) = Inr it"
  by (simp add: items_obj_def)

lemma items_obj_whole:
  "\<not> (is_dict data \<and> (has_key data ''response'' \<or> has_key data ''items'')) \<Longrightarrow>
   items_obj data = Inr data"
  by (auto simp: items_obj_def)

lemma extract_items_json:
  "is_json_response body ctype \<Longrightarrow> json_loads E body = Some data \<Longrightarrow>
   extract_items E body ctype =
     (case items_obj data of Inl e \<Rightarrow> Inl e | Inr obj \<Rightarrow> Inr (normalize_items obj, data))"
  by (simp add: extract_items_def)

lemma items_obj_blocked:
  "is_dict data \<Longrightarrow> has_key data ''response'' \<Longrightarrow>
   (items_obj data = Inl AttributeError) = spec_path_blocked data"
  apply (cases data; simp add: items_obj_def spec_path_blocked_def)
  subgoal for kv
    apply (cases "map_of kv ''response''"; simp)
    subgoal for r
      apply (cases r; simp add: or_empty_def)
      subgoal for rkv
        apply (cases "map_of rkv ''body''"; simp)
        subgoal for b
          by (cases b; simp; cases "rkv = []"; auto split: option.splits)
        done
      done
    done
  done

text \<open>
  C2 (as the code has it): \<open>extract_items\<close> chooses the item collection by the presence of
  the key, not by the success of the probe. When the parsed value is a mapping with a
  \<^verbatim>\<open>response\<close> key, only the path response.body.items is used: its value is coerced to
  Records when the path exists; when it does not exist there are no Records, unless an
  intermediate value is a truthy non-mapping, and then AttributeError is raised; a
  top-level \<^verbatim>\<open>items\<close> field plays no part. A mapping without \<^verbatim>\<open>response\<close> but with
  \<^verbatim>\<open>items\<close> gives that field; every other value is coerced whole.
\<close>

theorem extract_items_probe_order:
  "is_json_response body ctype \<Longrightarrow> json_loads E body = Some data \<Longrightarrow>
   (is_dict data \<and> has_key data ''response'' \<longrightarrow>
      (\<forall>it. spec_path_items data = Some it \<longrightarrow>
         extract_items E body ctype = Inr (normalize_items it, data)) \<and>
      (spec_path_items data = None \<and> \<not> spec_path_blocked data \<longrightarrow>
         extract_items E body ctype = Inr ([], data)) \<and>
      (spec_path_items data = None \<and> spec_path_blocked data \<longrightarrow>
         extract_items E body ctype = Inl AttributeError)) \<and>
   (is_dict data \<and> \<not> has_key data ''response'' \<and> has_key data ''items'' \<longrightarrow>
      (\<exists>it. py_get data ''items'' = Inr it \<and>
         extract_items E body ctype = Inr (normalize_items it, data))) \<and>
   (\<not> (is_dict data \<and> (has_key data ''response'' \<or> has_key data ''items'')) \<longrightarrow>
      extract_items E body ctype = Inr (normalize_items data, data))"
proof -
  assume j: "is_json_response body ctype" "json_loads E body = Some data"
  note e = extract_items_json[OF j]
  have a: "extract_items E body ctype = Inr (normalize_items it, data)"
    if "is_dict data" "has_key data ''response''" "spec_path_items data = Some it" for it
    using items_obj_path[OF that] e by simp
  have b: "extract_items E body ctype = Inr ([], data)"
    if "is_dict data" "has_key data ''response''" "spec_path_items data = None"
      "\<not> spec_path_blocked data"
  proof -
    from that(4) have "items_obj data \<noteq> Inl AttributeError"
      using items_obj_blocked[OF that(1,2)] by simp
    with items_obj_no_path[OF that(1-3)] have "items_obj data = Inr JNull"
      by simp
    with e show ?thesis by simp
  qed
  have b': "extract_items E body ctype = Inl AttributeError"
    if "is_dict data" "has_key data ''response''" "spec_path_blocked data"
  proof -
    from that(3) have "items_obj data = Inl AttributeError"
      using items_obj_blocked[OF that(1,2)] by simp
    with e show ?thesis by simp
  qed
  have c: "\<exists>it. py_get data ''items'' = Inr it \<and>
         extract_items E body ctype = Inr (normalize_items it, data)"
    if "is_dict data" "\<not> has_key data ''response''" "has_key data ''items''"
    using that e by (cases data) (auto simp: items_obj_def)
  have d: "extract_items E body ctype = Inr (normalize_items data, data)"
    if "\<not> (is_dict data \<and> (has_key data ''response'' \<or> has_key data ''items''))"
    using items_obj_whole[OF that] e by simp
  from a b b' c d show ?thesis by blast
qed

lemma parse_env_simps:
  "json_loads (parse_env body data) body = Some data"
  by (simp add: parse_env_def mock_env_def)

lemma shadow_json_simps:
  "is_dict shadow_json" "has_key shadow_json ''response''" "spec_path_items shadow_json = None"
  "py_get shadow_json ''items'' = Inr (JArr [JObj [(''a'', JStr ''1'')]])"
  "items_obj shadow_json = Inr JNull"
  by (simp_all add: shadow_json_def spec_path_items_def items_obj_def or_empty_def)

theorem shadowed_items_counterexample:
  "spec_path_items shadow_json = None \<and>
   py_get shadow_json ''items'' = Inr (JArr [JObj [(''a'', JStr ''1'')]]) \<and>
   normalize_items (JArr [JObj [(''a'', JStr ''1'')]]) = [[(''a'', JStr ''1'')]] \<and>
   extract_items (parse_env shadow_text shadow_json) shadow_text ''application/json'' =
     Inr ([], shadow_json)"
  by (simp add: shadow_json_simps extract_items_json[OF json_content_type parse_env_simps])

theorem extract_items_probe_order_witness:
  "extract_items (parse_env over_text over_json) over_text ''application/json'' =
     Inr ([[(''a'', JStr ''1'')], [(''a'', JStr ''2'')]], over_json) \<and>
   extract_items (parse_env shadow_text shadow_json) shadow_text ''application/json'' =
     Inr ([], shadow_json) \<and>
   extract_items (parse_env error_text error_json) error_text ''application/json'' =
     Inl AttributeError \<and>
   extract_items (parse_env oops_text oops_json) oops_text ''application/json'' =
     Inl AttributeError \<and>
   extract_items (parse_env top_text top_json) top_text ''application/json'' =
     Inr ([[(''a'', JStr ''1'')]], top_json) \<and>
   extract_items (parse_env full_text full_json) full_text ''application/json'' =
     Inr ([[(''a'', JStr ''1'')], [(''a'', JStr ''2'')]], full_json)"
proof -
  have a: "extract_items (parse_env over_text over_json) over_text ''application/json'' =
     Inr ([[(''a'', JStr ''1'')], [(''a'', JStr ''2'')]], over_json)"
    using extract_items_probe_order[OF json_content_type parse_env_simps, of over_json over_text]
    by (simp add: over_json_def spec_path_items_def)
  have b: "extract_items (parse_env shadow_text shadow_json) shadow_text ''application/json'' =
      Inr ([], shadow_json)"
    using extract_items_probe_order[OF json_content_type parse_env_simps, of shadow_json shadow_text]
    by (simp add: shadow_json_simps) (simp add: shadow_json_def spec_path_blocked_def)
  have b1: "extract_items (parse_env error_text error_json) error_text ''application/json'' =
      Inl AttributeError"
    using extract_items_probe_order[OF json_content_type parse_env_simps, of error_json error_text]
    by (simp add: error_json_def spec_path_blocked_def spec_path_items_def)
  have b2: "extract_items (parse_env oops_text oops_json) oops_text ''application/json'' =
      Inl AttributeError"
    using extract_items_probe_order[OF json_content_type parse_env_simps, of oops_json oops_text]
    by (simp add: oops_json_def spec_path_blocked_def spec_path_items_def)
  have c: "extract_items (parse_env top_text top_json) top_text ''application/json'' =
     Inr ([[(''a'', JStr ''1'')]], top_json)"
    using extract_items_probe_order[OF json_content_type parse_env_simps, of top_json top_text]
    by (simp add: top_json_def)
  have d: "extract_items (parse_env full_text full_json) full_text ''application/json'' =
     Inr ([[(''a'', JStr ''1'')], [(''a'', JStr ''2'')]], full_json)"
    using extract_items_probe_order[OF json_content_type parse_env_simps, of full_json full_text]
    by (simp add: full_json_def)
  from a b b1 b2 c d show ?thesis by blast
qed

lemma items_obj_error:
  "items_obj data = Inl e \<Longrightarrow> e = AttributeError"
  using py_get_cases
  by (auto simp: items_obj_def split: if_splits sum.splits) (metis Inl_inject sum.distinct(1))+

text \<open>
  C10 (as the code has it): for a JSON mapping with a \<^verbatim>\<open>response\<close> key, \<open>extract_items\<close>
  fails with AttributeError exactly when the value of \<^verbatim>\<open>response\<close> is truthy and not a
  mapping, or the value of \<^verbatim>\<open>response.body\<close> is truthy and not a mapping; in every other
  case it returns Records. So \<^verbatim>\<open>{"response": "error"}\<close> raises AttributeError, and a mapping
  or falsy \<^verbatim>\<open>response\<close> alone does not make the lookups safe.
\<close>

theorem extract_items_attribute_error:
  "is_json_response body ctype \<Longrightarrow> json_loads E body = Some (JObj kv) \<Longrightarrow>
   map_of kv ''response'' = Some r \<Longrightarrow>
   (extract_items E body ctype = Inl AttributeError) =
     ((truthy r \<and> \<not> is_dict r) \<or>
      (\<exists>b. py_get (or_empty r) ''body'' = Inr b \<and> truthy b \<and> \<not> is_dict b)) \<and>
   (extract_items E body ctype = Inl AttributeError \<or>
    (\<exists>items. extract_items E body ctype = Inr (items, JObj kv)))"
proof -
  assume j: "is_json_response body ctype" "json_loads E body = Some (JObj kv)"
    and r: "map_of kv ''response'' = Some r"
  note e = extract_items_json[OF j]
  have io: "items_obj (JObj kv) =
      (case py_get (or_empty r) ''body'' of Inl e \<Rightarrow> Inl e | Inr b \<Rightarrow> py_get (or_empty b) ''items'')"
    using r by (simp add: items_obj_def)
  have g: "(py_get x k = Inl AttributeError) = (\<not> is_dict x)" for x k
    by (cases x) simp_all
  have g': "(py_get (or_empty x) k = Inl AttributeError) = (truthy x \<and> \<not> is_dict x)" for x k
    by (cases x) (simp_all add: or_empty_def)
  have g'': "py_get x k = Inl e' \<Longrightarrow> e' = AttributeError" for x k e'
    by (cases x) simp_all
  have "(items_obj (JObj kv) = Inl AttributeError) =
     ((truthy r \<and> \<not> is_dict r) \<or>
      (\<exists>b. py_get (or_empty r) ''body'' = Inr b \<and> truthy b \<and> \<not> is_dict b))"
  proof (cases "py_get (or_empty r) ''body''")
    case (Inl e')
    then have "py_get (or_empty r) ''body'' = Inl AttributeError"
      using g''[of "or_empty r" "''body''" e'] by simp
    then show ?thesis
      using g'[of r "''body''"] by (simp add: io)
  next
    case (Inr b)
    then have "\<not> (truthy r \<and> \<not> is_dict r)"
      using g'[of r "''body''"] by simp
    with Inr show ?thesis
      by (auto simp: io g')
  qed
  moreover have "(extract_items E body ctype = Inl AttributeError) =
      (items_obj (JObj kv) = Inl AttributeError)"
    unfolding e by (auto split: sum.splits)
  moreover have "extract_items E body ctype = Inl AttributeError \<or>
    (\<exists>items. extract_items E body ctype = Inr (items, JObj kv))"
    unfolding e using items_obj_error[of "JObj kv"] by (auto split: sum.splits)
  ultimately show ?thesis by simp
qed

theorem body_not_mapping_counterexample:
  "is_dict (JObj [(''body'', JStr ''oops'')]) \<and>
   oops_json = JObj [(''response'', JObj [(''body'', JStr ''oops'')])] \<and>
   extract_items (parse_env oops_text oops_json) oops_text ''application/json'' =
     Inl AttributeError"
  by (simp add: extract_items_json[OF json_content_type parse_env_simps])
     (simp add: oops_json_def items_obj_def or_empty_def)

theorem extract_items_attribute_error_witness:
  "error_json = JObj [(''response'', JStr ''error'')] \<and>
   extract_items (parse_env error_text error_json) error_text ''application/json'' =
     Inl AttributeError \<and>
   extract_items (parse_env over_text over_json) over_text ''application/json'' \<noteq>
     Inl AttributeError"
proof -
  have a: "extract_items (parse_env error_text error_json) error_text ''application/json'' =
     Inl AttributeError"
    using extract_items_attribute_error[OF json_content_type,
        of "parse_env error_text error_json" error_text "[(''response'', JStr ''error'')]"
           "JStr ''error''"]
    by (simp add: parse_env_simps error_json_def[symmetric])
  have b: "extract_items (parse_env over_text over_json) over_text ''application/json'' \<noteq>
     Inl AttributeError"
    using extract_items_attribute_error[OF json_content_type,
        of "parse_env over_text over_json" over_text
           "[(''response'', JObj [(''body'',
     JObj [(''items'', JArr [JObj [(''a'', JStr ''1'')], JObj [(''a'', JStr ''2'')]]),
           (''totalCount'', JInt 3)])])]"
           "JObj [(''body'',
     JObj [(''items'', JArr [JObj [(''a'', JStr ''1'')], JObj [(''a'', JStr ''2'')]]),
           (''totalCount'', JInt 3)])]"]
    by (simp add: parse_env_simps over_json_def[symmetric] or_empty_def)
  from a b show ?thesis by (simp add: error_json_def)
qed

section \<open>Properties of the regular expressions\<close>

lemma conc_Nil: "[] \<in> conc A B \<longleftrightarrow> [] \<in> A \<and> [] \<in> B"
  by (auto simp: conc_def)

lemma conc_Cons:
  "c # w \<in> conc A B \<longleftrightarrow>
     ([] \<in> A \<and> c # w \<in> B) \<or> (\<exists>u v. w = u @ v \<and> c # u \<in> A \<and> v \<in> B)"
proof
  assume "c # w \<in> conc A B"
  then obtain u v where uv: "c # w = u @ v" "u \<in> A" "v \<in> B"
    by (auto simp: conc_def)
  show "([] \<in> A \<and> c # w \<in> B) \<or> (\<exists>u v. w = u @ v \<and> c # u \<in> A \<and> v \<in> B)"
  proof (cases u)
    case Nil
    with uv show ?thesis by simp
  next
    case (Cons d u')
    with uv have "w = u' @ v" "c # u' \<in> A" by simp_all
    with uv(3) show ?thesis by blast
  qed
next
  assume "([] \<in> A \<and> c # w \<in> B) \<or> (\<exists>u v. w = u @ v \<and> c # u \<in> A \<and> v \<in> B)"
  then show "c # w \<in> conc A B"
  proof
    assume "[] \<in> A \<and> c # w \<in> B"
    then have "[] @ (c # w) \<in> conc A B" unfolding conc_def by blast
    then show ?thesis by simp
  next
    assume "\<exists>u v. w = u @ v \<and> c # u \<in> A \<and> v \<in> B"
    then obtain u v where "w = u @ v" "c # u \<in> A" "v \<in> B" by blast
    then have "(c # u) @ v \<in> conc A B" unfolding conc_def by blast
    with \<open>w = u @ v\<close> show ?thesis by simp
  qed
qed

lemma star_Cons_aux:
  "x \<in> star A \<Longrightarrow> x = c # w \<Longrightarrow> \<exists>u v. w = u @ v \<and> c # u \<in> A \<and> v \<in> star A"
proof (induction arbitrary: w rule: star.induct)
  case star_empty
  then show ?case by simp
next
  case (star_more u v)
  show ?case
  proof (cases u)
    case Nil
    with star_more.prems have "v = c # w" by simp
    then show ?thesis by (rule star_more.IH)
  next
    case (Cons d u')
    with star_more.prems have "w = u' @ v" "d = c" by simp_all
    with star_more.hyps Cons show ?thesis by blast
  qed
qed

lemma star_Cons:
  "c # w \<in> star A \<longleftrightarrow> (\<exists>u v. w = u @ v \<and> c # u \<in> A \<and> v \<in> star A)"
proof
  assume "c # w \<in> star A"
  then show "\<exists>u v. w = u @ v \<and> c # u \<in> A \<and> v \<in> star A"
    by (rule star_Cons_aux) simp
next
  assume "\<exists>u v. w = u @ v \<and> c # u \<in> A \<and> v \<in> star A"
  then obtain u v where "w = u @ v" "c # u \<in> A" "v \<in> star A" by blast
  then have "(c # u) @ v \<in> star A" by (intro star_more)
  with \<open>w = u @ v\<close> show "c # w \<in> star A" by simp
qed

lemma nullable_lang: "nullable r \<longleftrightarrow> [] \<in> lang r"
  by (induction r) (auto simp: conc_Nil intro: star_empty)

lemma lang_deriv: "w \<in> lang (deriv c r) \<longleftrightarrow> c # w \<in> lang r"
proof (induction r arbitrary: w)
  case (RSeq r s)
  show ?case
  proof (cases "nullable r")
    case True
    then have "w \<in> lang (deriv c (RSeq r s)) \<longleftrightarrow>
                 w \<in> conc (lang (deriv c r)) (lang s) \<or> w \<in> lang (deriv c s)"
      by simp
    also have "\<dots> \<longleftrightarrow> (\<exists>u v. w = u @ v \<and> c # u \<in> lang r \<and> v \<in> lang s) \<or> c # w \<in> lang s"
      using RSeq.IH by (auto simp: conc_def)
    also have "\<dots> \<longleftrightarrow> c # w \<in> conc (lang r) (lang s)"
      using True by (auto simp: conc_Cons nullable_lang)
    finally show ?thesis by simp
  next
    case False
    then have "w \<in> lang (deriv c (RSeq r s)) \<longleftrightarrow> w \<in> conc (lang (deriv c r)) (lang s)"
      by simp
    also have "\<dots> \<longleftrightarrow> (\<exists>u v. w = u @ v \<and> c # u \<in> lang r \<and> v \<in> lang s)"
      using RSeq.IH by (auto simp: conc_def)
    also have "\<dots> \<longleftrightarrow> c # w \<in> conc (lang r) (lang s)"
      using False by (auto simp: conc_Cons nullable_lang)
    finally show ?thesis by simp
  qed
next
  case (RStar r)
  have "w \<in> lang (deriv c (RStar r)) \<longleftrightarrow> w \<in> conc (lang (deriv c r)) (star (lang r))"
    by simp
  also have "\<dots> \<longleftrightarrow> (\<exists>u v. w = u @ v \<and> c # u \<in> lang r \<and> v \<in> star (lang r))"
    using RStar.IH by (auto simp: conc_def)
  also have "\<dots> \<longleftrightarrow> c # w \<in> star (lang r)"
    by (simp add: star_Cons)
  finally show ?case by simp
qed auto

lemma fullmatch_lang: "fullmatch r s \<longleftrightarrow> s \<in> lang r"
  unfolding fullmatch_def
  by (induction s arbitrary: r) (simp_all add: nullable_lang lang_deriv)

section \<open>Properties of the Type Inference Engine\<close>

lemma not_digit: "\<not> is_digit CHR ''-''" "\<not> is_digit CHR ''.''"
  by (simp_all add: is_digit_def)

lemma star_digits: "w \<in> star {[c] |c. is_digit c} \<longleftrightarrow> list_all is_digit w"
proof
  assume "w \<in> star {[c] |c. is_digit c}"
  then show "list_all is_digit w"
    by (induction rule: star.induct) auto
next
  assume "list_all is_digit w"
  then show "w \<in> star {[c] |c. is_digit c}"
  proof (induction w)
    case Nil
    show ?case by (rule star_empty)
  next
    case (Cons c w)
    then have "[c] \<in> {[c] |c. is_digit c}" "w \<in> star {[c] |c. is_digit c}" by simp_all
    then have "[c] @ w \<in> star {[c] |c. is_digit c}" by (rule star_more)
    then show ?case by simp
  qed
qed

lemma plus_digits: "w \<in> lang (RPlus RDigit) \<longleftrightarrow> w \<noteq> [] \<and> list_all is_digit w"
proof (cases w)
  case Nil
  then show ?thesis by (simp add: RPlus_def conc_Nil)
next
  case (Cons c u)
  then show ?thesis by (auto simp: RPlus_def conc_Cons star_digits)
qed

lemma rep_digits: "w \<in> lang (RRep n RDigit) \<longleftrightarrow> length w = n \<and> list_all is_digit w"
proof (induction n arbitrary: w)
  case 0
  then show ?case by auto
next
  case (Suc n)
  show ?case
  proof (cases w)
    case Nil
    then show ?thesis by (simp add: conc_Nil)
  next
    case (Cons c u)
    then show ?thesis using Suc.IH by (auto simp: conc_Cons)
  qed
qed

lemma opt_minus: "x \<in> conc (lang (ROpt (RChr CHR ''-''))) L \<longleftrightarrow>
   x \<in> L \<or> (\<exists>y. x = CHR ''-'' # y \<and> y \<in> L)"
  by (cases x) (auto simp: ROpt_def conc_Nil conc_Cons)

lemma is_integer_spec: "is_integer x = spec_integer_shaped x"
proof (cases x)
  case Nil
  then show ?thesis
    by (simp add: is_integer_def fullmatch_lang int_re_def opt_minus plus_digits
          spec_integer_shaped_def unsigned_part_def)
next
  case (Cons c r)
  then show ?thesis
    using not_digit(1)
    by (auto simp: is_integer_def fullmatch_lang int_re_def opt_minus plus_digits
          spec_integer_shaped_def unsigned_part_def)
qed


text \<open>The unsigned part of a number: digits, then optionally a point and digits.\<close>

lemma decimal_lang:
  "y \<in> lang (RSeq (RPlus RDigit) (ROpt (RSeq (RChr CHR ''.'') (RPlus RDigit)))) \<longleftrightarrow>
     (\<exists>a b. y = a @ b \<and> a \<noteq> [] \<and> list_all is_digit a \<and>
        (b = [] \<or> (\<exists>d. b = CHR ''.'' # d \<and> d \<noteq> [] \<and> list_all is_digit d)))"
proof -
  have opt: "b \<in> lang (ROpt (RSeq (RChr CHR ''.'') (RPlus RDigit))) \<longleftrightarrow>
          (b = [] \<or> (\<exists>d. b = CHR ''.'' # d \<and> d \<noteq> [] \<and> list_all is_digit d))" for b
  proof (cases b)
    case Nil
    then show ?thesis by (simp add: ROpt_def)
  next
    case (Cons c d)
    have "d \<in> conc {[]} (lang (RPlus RDigit)) \<longleftrightarrow> d \<in> lang (RPlus RDigit)"
      by (auto simp: conc_def)
    with Cons show ?thesis
      by (auto simp: ROpt_def conc_Cons plus_digits simp del: lang.simps(6)
            simp add: lang.simps(6)[of "RChr CHR ''.''"])
  qed
  have "y \<in> lang (RSeq (RPlus RDigit) (ROpt (RSeq (RChr CHR ''.'') (RPlus RDigit)))) \<longleftrightarrow>
       (\<exists>a b. y = a @ b \<and> a \<in> lang (RPlus RDigit) \<and>
           b \<in> lang (ROpt (RSeq (RChr CHR ''.'') (RPlus RDigit))))"
    by (auto simp: conc_def)
  then show ?thesis
    by (simp only: opt plus_digits conj_assoc)
qed

lemma decimal_split:
  "(\<exists>a b. y = a @ b \<and> a \<noteq> [] \<and> list_all is_digit a \<and>
        (b = [] \<or> (\<exists>d. b = CHR ''.'' # d \<and> d \<noteq> [] \<and> list_all is_digit d))) \<longleftrightarrow>
   (takeWhile is_digit y \<noteq> [] \<and>
     (dropWhile is_digit y = [] \<or>
      (hd (dropWhile is_digit y) = CHR ''.'' \<and> tl (dropWhile is_digit y) \<noteq> [] \<and>
       list_all is_digit (tl (dropWhile is_digit y)))))"
  (is "?L \<longleftrightarrow> ?R")
proof
  assume ?L
  then obtain a b where ab: "y = a @ b" "a \<noteq> []" "list_all is_digit a"
    "b = [] \<or> (\<exists>d. b = CHR ''.'' # d \<and> d \<noteq> [] \<and> list_all is_digit d)"
    by blast
  from ab(3) have all: "\<And>x. x \<in> set a \<Longrightarrow> is_digit x"
    by (simp add: list_all_iff)
  from ab(4) have tb: "takeWhile is_digit b = []" and db: "dropWhile is_digit b = b"
    using not_digit(2) by auto
  have "takeWhile is_digit y = a"
    using ab(1) all tb by (simp add: takeWhile_append2)
  moreover have "dropWhile is_digit y = b"
    using ab(1) all db by (simp add: dropWhile_append2)
  ultimately show ?R
    using ab(2,4) by auto
next
  assume r: ?R
  have y: "y = takeWhile is_digit y @ dropWhile is_digit y" by simp
  have d: "list_all is_digit (takeWhile is_digit y)"
    by (auto simp: list_all_iff dest: set_takeWhileD)
  from r have "dropWhile is_digit y = [] \<or>
      (\<exists>d. dropWhile is_digit y = CHR ''.'' # d \<and> d \<noteq> [] \<and> list_all is_digit d)"
    by (cases "dropWhile is_digit y") auto
  with r y d show ?L by blast
qed

lemma is_number_spec: "is_number x = spec_number_shaped x"
proof -
  let ?L = "lang (RSeq (RPlus RDigit) (ROpt (RSeq (RChr CHR ''.'') (RPlus RDigit))))"
  have first: "y \<in> ?L \<Longrightarrow> y \<noteq> [] \<and> is_digit (hd y)" for y
    unfolding decimal_lang by (auto simp: neq_Nil_conv)
  have "is_number x \<longleftrightarrow> x \<in> ?L \<or> (\<exists>y. x = CHR ''-'' # y \<and> y \<in> ?L)"
    by (simp only: is_number_def fullmatch_lang number_re_def
          lang.simps(6)[of "ROpt (RChr CHR ''-'')"] opt_minus)
  also have "\<dots> \<longleftrightarrow> unsigned_part x \<in> ?L"
  proof (cases x)
    case Nil
    then show ?thesis by (simp add: unsigned_part_def del: lang.simps)
  next
    case (Cons c r)
    show ?thesis
    proof (cases "c = CHR ''-''")
      case True
      with Cons have "x \<notin> ?L" using first[of x] not_digit(1) by auto
      with Cons True show ?thesis by (simp add: unsigned_part_def del: lang.simps)
    next
      case False
      with Cons show ?thesis by (simp add: unsigned_part_def del: lang.simps)
    qed
  qed
  also have "\<dots> \<longleftrightarrow> spec_number_shaped x"
    unfolding decimal_lang decimal_split by (simp add: spec_number_shaped_def Let_def)
  finally show ?thesis .
qed

lemma conc_iff: "w \<in> conc A B \<longleftrightarrow> (\<exists>u v. w = u @ v \<and> u \<in> A \<and> v \<in> B)"
  by (auto simp: conc_def)

lemma iso_date_lang:
  "x \<in> lang date_iso_re \<longleftrightarrow>
     (\<exists>a b c. x = a @ CHR ''-'' # b @ CHR ''-'' # c \<and>
        length a = 4 \<and> list_all is_digit a \<and> length b = 2 \<and> list_all is_digit b \<and>
        length c = 2 \<and> list_all is_digit c)"
proof -
  have "x \<in> lang date_iso_re \<longleftrightarrow>
     (\<exists>a r. x = a @ r \<and> (length a = 4 \<and> list_all is_digit a) \<and>
        (\<exists>u v. r = u @ v \<and> u \<in> {[CHR ''-'']} \<and>
           (\<exists>b t. v = b @ t \<and> (length b = 2 \<and> list_all is_digit b) \<and>
              (\<exists>u' c. t = u' @ c \<and> u' \<in> {[CHR ''-'']} \<and>
                 length c = 2 \<and> list_all is_digit c))))"
    unfolding date_iso_re_def lang.simps(6) lang.simps(3)
    by (simp only: conc_iff rep_digits)
  also have "\<dots> \<longleftrightarrow>
     (\<exists>a b c. x = a @ CHR ''-'' # b @ CHR ''-'' # c \<and>
        length a = 4 \<and> list_all is_digit a \<and> length b = 2 \<and> list_all is_digit b \<and>
        length c = 2 \<and> list_all is_digit c)"
    by (simp only: singleton_iff) (simp, blast)
  finally show ?thesis .
qed

lemma is_date_spec: "is_date x = spec_date_shaped x"
proof -
  have iso: "x \<in> lang date_iso_re \<longleftrightarrow>
      (length x = 10 \<and> list_all is_digit (take 4 x) \<and> x ! 4 = CHR ''-'' \<and>
       list_all is_digit (take 2 (drop 5 x)) \<and> x ! 7 = CHR ''-'' \<and>
       list_all is_digit (drop 8 x))" (is "_ \<longleftrightarrow> ?R")
  proof
    assume "x \<in> lang date_iso_re"
    then obtain a b c where x: "x = a @ CHR ''-'' # b @ CHR ''-'' # c"
        and l: "length a = 4" "length b = 2" "length c = 2"
        and d: "list_all is_digit a" "list_all is_digit b" "list_all is_digit c"
      unfolding iso_date_lang by blast
    have "length x = 10" unfolding x using l by simp
    moreover have "take 4 x = a" unfolding x using l by simp
    moreover have "x ! 4 = CHR ''-''" unfolding x using l by (simp add: nth_append)
    moreover have d5: "drop 5 x = b @ CHR ''-'' # c" unfolding x using l by simp
    moreover have "take 2 (drop 5 x) = b" unfolding d5 using l by simp
    moreover have "x ! 7 = CHR ''-''" unfolding x using l by (simp add: nth_append nth_Cons')
    moreover have "drop 8 x = c" unfolding x using l by simp
    ultimately show ?R using d by simp
  next
    assume r: ?R
    have "x = take 4 x @ x ! 4 # drop (Suc 4) x"
      by (rule id_take_nth_drop) (use r in simp)
    then have a: "x = take 4 x @ CHR ''-'' # drop 5 x"
      using r by simp
    have "drop 5 x = take 2 (drop 5 x) @ drop 5 x ! 2 # drop (Suc 2) (drop 5 x)"
      by (rule id_take_nth_drop) (use r in simp)
    moreover have "drop 5 x ! 2 = CHR ''-''"
      using r by simp
    moreover have "drop (Suc 2) (drop 5 x) = drop 8 x"
      by simp
    ultimately have b: "drop 5 x = take 2 (drop 5 x) @ CHR ''-'' # drop 8 x"
      by (simp only:)
    have "x = take 4 x @ CHR ''-'' # take 2 (drop 5 x) @ CHR ''-'' # drop 8 x"
      by (subst a, subst b) (rule refl)
    with r show "x \<in> lang date_iso_re"
      unfolding iso_date_lang
      by (intro exI[of _ "take 4 x"] exI[of _ "take 2 (drop 5 x)"] exI[of _ "drop 8 x"]) simp
  qed
  show ?thesis
    unfolding is_date_def fullmatch_lang date8_re_def date6_re_def rep_digits iso
      spec_date_shaped_def by blast
qed

lemma mean_fraction:
  "mean (astype_float (map P xs)) = spec_fraction P xs"
proof -
  have "sum_list (astype_float (map P xs)) = of_nat (length (filter P xs))"
    by (induction xs) (simp_all add: astype_float_def)
  then show ?thesis
    by (simp add: mean_def spec_fraction_def astype_float_def)
qed

lemma infer_type_spec: "infer_type vs = spec_infer_type vs"
proof -
  have "is_number = spec_number_shaped" "is_date = spec_date_shaped"
       "is_integer = spec_integer_shaped"
    by (auto simp: is_number_spec is_date_spec is_integer_spec)
  then show ?thesis
    by (simp add: infer_type_def spec_infer_type_def spec_cleaned_def Let_def mean_fraction)
qed

text \<open>
  C4: \<open>infer_type\<close> drops the null cells, trims, drops the empty strings, and then
  classifies in this order: unknown when nothing remains; date when the date-shaped
  fraction is at least 0.9; else, when the number-shaped fraction is at least 0.9, int when
  the integer-only fraction is at least 0.9 and float otherwise; else string. The five
  examples of the spec come out as date, string, float, int and unknown.
\<close>

theorem infer_type_classification:
  "infer_type vs = spec_infer_type vs \<and>
   infer_type [Some ''20250101'', Some ''20250102'', Some ''20250103''] = TDate \<and>
   infer_type [Some ''1'', Some ''2'', Some ''3'', Some ''x''] = TString \<and>
   infer_type [Some ''1'', Some ''2'', Some ''3.5''] = TFloat \<and>
   infer_type [Some ''1'', Some ''2'', Some ''3''] = TInt \<and>
   infer_type [] = TUnknown \<and>
   infer_type (replicate n None) = TUnknown"
proof -
  have "infer_type [Some ''20250101'', Some ''20250102'', Some ''20250103''] = TDate"
    by code_simp
  moreover have "infer_type [Some ''1'', Some ''2'', Some ''3'', Some ''x''] = TString"
    by code_simp
  moreover have "infer_type [Some ''1'', Some ''2'', Some ''3.5''] = TFloat"
    by code_simp
  moreover have "infer_type [Some ''1'', Some ''2'', Some ''3''] = TInt"
    by code_simp
  moreover have "infer_type [] = TUnknown"
    by (simp add: infer_type_def dropna_def)
  moreover have "infer_type (replicate n None) = TUnknown"
    by (simp add: infer_type_def dropna_def)
  ultimately show ?thesis
    using infer_type_spec[of vs] by simp
qed

section \<open>Properties of the Schema Summarizer\<close>

lemma summarize_dataframe_Inr:
  "summarize_dataframe tn df = Inr ps \<Longrightarrow>
   df_cols df \<noteq> [] \<and> ps = sort_key column (map (summarize_column tn df) (df_cols df))"
  by (auto simp: summarize_dataframe_def Let_def split: if_splits)

lemma summarize_dataframe_profile:
  assumes "summarize_dataframe tn df = Inr ps" "p \<in> set ps"
  obtains ser where "(column p, ser) \<in> set (df_cols df)"
    "p = summarize_column tn df (column p, ser)"
proof -
  from assms have "p \<in> summarize_column tn df ` set (df_cols df)"
    using summarize_dataframe_Inr[OF assms(1)] by simp
  then obtain cs where cs: "cs \<in> set (df_cols df)" "p = summarize_column tn df cs"
    by blast
  then have "column p = fst cs"
    by (simp add: summarize_column_def Let_def)
  with cs that[of "snd cs"] show ?thesis by simp
qed

lemma round_half_even_bound: "\<bar>of_int (round_half_even y) - y\<bar> \<le> 1 / 2"
proof -
  define f where "f = \<lfloor>y\<rfloor>"
  define d where "d = y - of_int f"
  have d: "0 \<le> d" "d < 1"
    unfolding d_def f_def by linarith+
  have "round_half_even y = (if d < 1 / 2 then f else if 1 / 2 < d then f + 1
                        else if even f then f else f + 1)"
    unfolding round_half_even_def Let_def d_def f_def ..
  then show ?thesis
    using d by (auto simp: d_def abs_if)
qed

lemma bit_length_mono: "m \<le> n \<Longrightarrow> bit_length m \<le> bit_length n"
proof (induction n arbitrary: m rule: bit_length.induct)
  case (1 n)
  show ?case
  proof (cases "m \<le> 0")
    case True
    then show ?thesis by (simp add: bit_length.simps[of m])
  next
    case False
    with "1.prems" have n: "\<not> n \<le> 0" by simp
    have "m div 2 \<le> n div 2" using "1.prems" by (simp add: zdiv_mono1)
    with "1.IH"[OF n] have "bit_length (m div 2) \<le> bit_length (n div 2)" .
    with False n show ?thesis
      by (simp add: bit_length.simps[of m] bit_length.simps[of n])
  qed
qed

lemma bit_length_double: "0 < n \<Longrightarrow> bit_length (2 * n) = Suc (bit_length n)"
  by (subst bit_length.simps) simp

text \<open>Below 2 the exponent is at most 0, so a double is within \<open>2 ^ -53\<close> of its value.\<close>

lemma float_exponent_small:
  assumes "0 < x" "x < 2"
  shows "float_exponent x \<le> 0"
proof -
  obtain a b where q: "quotient_of x = (a, b)" by (cases "quotient_of x")
  then have b: "0 < b" and x: "x = of_int a / of_int b"
    by (auto dest: quotient_of_denom_pos quotient_of_div)
  define d where "d = int (bit_length a) - int (bit_length b)"
  have e: "float_exponent x = (if power_int 2 d \<le> x then d else d - 1)"
    unfolding float_exponent_def Let_def q d_def by simp
  show ?thesis
  proof (cases "power_int 2 d \<le> x")
    case True
    with assms(2) have "power_int (2::rat) d < power_int 2 1" by simp
    then have "d < 1" using power_int_le_imp_less_exp[of "2::rat" d 1] by simp
    with True e show ?thesis by simp
  next
    case False
    from assms(2) b x have "of_int a < (2 * of_int b :: rat)"
      by (simp add: field_simps)
    then have "a < 2 * b" by (metis of_int_less_iff of_int_mult of_int_numeral)
    then have "a \<le> 2 * b" by simp
    then have "bit_length a \<le> bit_length (2 * b)" by (rule bit_length_mono)
    also have "\<dots> = Suc (bit_length b)" using b by (rule bit_length_double)
    finally have "d \<le> 1" unfolding d_def by simp
    with False e show ?thesis by simp
  qed
qed

lemma fl_bound:
  assumes "\<bar>x\<bar> < 2"
  shows "\<bar>fl x - x\<bar> \<le> 1 / 2 ^ 53"
proof (cases "x = 0")
  case True
  then show ?thesis by (simp add: fl_def)
next
  case False
  define u :: rat where "u = power_int 2 (float_exponent \<bar>x\<bar> - 52)"
  define m where "m = round_half_even (\<bar>x\<bar> / u)"
  have u0: "0 < u" unfolding u_def by simp
  have "float_exponent \<bar>x\<bar> \<le> 0"
    using False assms by (intro float_exponent_small) simp_all
  then have "u \<le> power_int 2 (- 52)"
    unfolding u_def by (intro power_int_increasing) simp_all
  then have u52: "u \<le> 1 / 2 ^ 52"
    by (simp add: power_int_minus field_simps)
  have f: "fl x = sgn x * of_int m * u"
    using False unfolding fl_def Let_def u_def m_def by simp
  have "x = sgn x * (\<bar>x\<bar> / u) * u"
    using u0 by (simp add: sgn_if)
  then have "fl x - x = sgn x * (of_int m - \<bar>x\<bar> / u) * u"
    unfolding f by (simp add: algebra_simps)
  then have "\<bar>fl x - x\<bar> = \<bar>of_int m - \<bar>x\<bar> / u\<bar> * u"
    using False u0 by (simp add: abs_mult abs_sgn_eq)
  also have "\<dots> \<le> (1 / 2) * u"
    using round_half_even_bound[of "\<bar>x\<bar> / u"] u0 unfolding m_def
    by (intro mult_right_mono) simp_all
  also have "\<dots> \<le> (1 / 2) * (1 / 2 ^ 52)"
    using u52 by (intro mult_left_mono) simp_all
  finally show ?thesis by simp
qed

lemma py_round4_bound:
  assumes "\<bar>x\<bar> \<le> 3 / 2"
  shows "\<bar>py_round x 4 - x\<bar> \<le> 1 / 20000 + 1 / 2 ^ 53"
proof -
  define c :: rat where "c = of_int (round_half_even (x * 10 ^ 4)) / 10 ^ 4"
  have e: "c - x = (of_int (round_half_even (x * 10 ^ 4)) - x * 10 ^ 4) / 10 ^ 4"
    unfolding c_def by (simp add: field_simps)
  have "\<bar>c - x\<bar> = \<bar>of_int (round_half_even (x * 10 ^ 4)) - x * 10 ^ 4\<bar> / 10 ^ 4"
    unfolding e by (simp add: abs_divide)
  also have "\<dots> \<le> (1 / 2) / 10 ^ 4"
    using round_half_even_bound[of "x * 10 ^ 4"] by (intro divide_right_mono) simp_all
  finally have cx: "\<bar>c - x\<bar> \<le> 1 / 20000" by simp
  with assms have "\<bar>c\<bar> < 2" by linarith
  then have "\<bar>fl c - c\<bar> \<le> 1 / 2 ^ 53" by (rule fl_bound)
  moreover have "py_round x 4 = fl c"
    unfolding py_round_def c_def ..
  ultimately show ?thesis using cx by linarith
qed

text \<open>The three roundings of \<^verbatim>\<open>round(1.0 - k / n, 4)\<close> stay near the exact value.\<close>

lemma float_missing_bound:
  assumes "k \<le> n" "0 < n"
  shows "\<bar>py_round (float_sub 1 (float_div k n)) 4 - (1 - of_nat k / of_nat n)\<bar>
           \<le> 1 / 20000 + 3 / 2 ^ 53"
proof -
  define q :: rat where "q = of_nat k / of_nat n"
  have q: "0 \<le> q" "q \<le> 1"
    using assms unfolding q_def by (simp_all add: divide_le_eq)
  define a where "a = fl q"
  define b where "b = fl (1 - a)"
  have "\<bar>q\<bar> < 2" using q by simp
  then have a: "\<bar>a - q\<bar> \<le> 1 / 2 ^ 53"
    unfolding a_def by (rule fl_bound)
  then have "\<bar>1 - a\<bar> < 2" using q by (simp add: abs_if split: if_splits)
  then have b: "\<bar>b - (1 - a)\<bar> \<le> 1 / 2 ^ 53"
    unfolding b_def by (rule fl_bound)
  from a b have bq: "\<bar>b - (1 - q)\<bar> \<le> 2 / 2 ^ 53" by linarith
  with q have "\<bar>b\<bar> \<le> 3 / 2" by (simp add: abs_if split: if_splits)
  then have "\<bar>py_round b 4 - b\<bar> \<le> 1 / 20000 + 1 / 2 ^ 53"
    by (rule py_round4_bound)
  with bq have "\<bar>py_round b 4 - (1 - q)\<bar> \<le> 1 / 20000 + 3 / 2 ^ 53" by linarith
  then show ?thesis
    unfolding b_def a_def q_def float_sub_def float_div_def .
qed

lemma DataFrame_col:
  "(k, ser) \<in> set (df_cols (DataFrame ds)) \<Longrightarrow> ser = map (\<lambda>r. cell r k) ds"
  by (auto simp: DataFrame_def)

lemma DataFrame_len: "df_len (DataFrame ds) = length ds"
  by (simp add: DataFrame_def)

lemma length_dropna: "length (dropna (map (\<lambda>r. cell r k) ds)) = present_count ds k"
  by (simp add: dropna_def present_count_def filter_map o_def)

lemma present_count_le: "present_count ds k \<le> length ds"
  by (simp add: present_count_def)

lemma missing_rate_column:
  "missing_rate (summarize_column tn df (k, ser)) =
     py_round (float_sub 1 (if df_len df \<noteq> 0 then float_div (length (dropna ser)) (df_len df)
                            else 0)) 4"
  by (simp add: summarize_column_def Let_def)

lemma ten_ds_profiles:
  "map (\<lambda>p. (column p, missing_rate p)) (sort_key column
      (map (summarize_column tn (DataFrame ten_ds)) (df_cols (DataFrame ten_ds)))) =
   [(''a'', fl (3 / 10)), (''b'', fl (9 / 10))]"
proof -
  have c: "df_cols (DataFrame ten_ds) =
      [(''a'', replicate 7 (Some ''x'') @ [None, None, None]),
       (''b'', replicate 7 None @ [None, Some ''y'', None])]"
    by code_simp
  have l: "df_len (DataFrame ten_ds) = 10"
    by (simp add: DataFrame_len ten_ds_def)
  have n: "length (dropna (replicate 7 (Some ''x'') @ [None, None, None])) = 7"
          "length (dropna (replicate 7 (None :: string option) @ [None, Some ''y'', None])) = 1"
    by (simp_all add: dropna_def)
  have r: "py_round (float_sub 1 (float_div 7 10)) 4 = fl (3 / 10)"
          "py_round (float_sub 1 (float_div (Suc 0) 10)) 4 = fl (9 / 10)"
    by code_simp+
  have "''a'' \<le> ''b''" by code_simp
  then show ?thesis
    unfolding c
    by (simp add: missing_rate_column l n r) (simp add: summarize_column_def Let_def)
qed

lemma third_ds_summary:
  "summarize_dataframe int_of_str (DataFrame third_ds) = Inr [third_profile]"
  by code_simp

lemma third_ds_counts: "present_count third_ds ''a'' = 1" "length third_ds = 3"
  by (simp_all add: third_ds_def present_count_def cell_def)

lemma tie_ds_counts: "present_count tie_ds ''a'' = 7" "length tie_ds = 160"
  by (simp_all add: tie_ds_def present_count_def cell_def)

lemma tie_ds_cols:
  "df_cols (DataFrame tie_ds) = [(''a'', replicate 7 (Some ''x'') @ replicate 153 None)]"
  by code_simp

lemma blank_ds_summary:
  "summarize_dataframe int_of_str (DataFrame blank_ds) = Inr [blank_profile]"
  by code_simp

lemma mixed_ds_summary:
  "summarize_dataframe int_of_str (DataFrame mixed_ds) = Inr mixed_profiles"
  by code_simp

text \<open>
  C5 (as the code has it): for a Dataset with at least one Record, the missing_rate of a
  column is \<^verbatim>\<open>round(1.0 - k / n, 4)\<close> in double precision, where \<open>k\<close> counts the Records
  in which the field is present and not null and \<open>n\<close> counts all Records: the four
  decimal value nearest to the double \<^verbatim>\<open>1.0 - k / n\<close>, so within 0.00005 (and three
  float roundings) of 1 minus \<open>k / n\<close>; 7 of 10 gives 0.3. A Dataset with zero Records has
  no column and no missing_rate: its summary raises KeyError.
\<close>

theorem missing_rate_rounded:
  "(summarize_dataframe tn (DataFrame ds) = Inr ps \<longrightarrow> p \<in> set ps \<longrightarrow>
      ds \<noteq> [] \<and>
      missing_rate p =
        py_round (float_sub 1 (float_div (present_count ds (column p)) (length ds))) 4 \<and>
      \<bar>missing_rate p - (1 - of_nat (present_count ds (column p)) / of_nat (length ds))\<bar>
        \<le> 1 / 20000 + 3 / 2 ^ 53) \<and>
   summarize_dataframe tn (DataFrame []) = Inl KeyError \<and>
   (\<exists>qs. summarize_dataframe tn (DataFrame ten_ds) = Inr qs \<and>
      map (\<lambda>p. (column p, missing_rate p)) qs = [(''a'', fl (3 / 10)), (''b'', fl (9 / 10))])"
proof (intro conjI impI)
  assume a: "summarize_dataframe tn (DataFrame ds) = Inr ps" "p \<in> set ps"
  then obtain ser where ser: "(column p, ser) \<in> set (df_cols (DataFrame ds))"
    "p = summarize_column tn (DataFrame ds) (column p, ser)"
    by (rule summarize_dataframe_profile)
  from summarize_dataframe_Inr[OF a(1)] show ne: "ds \<noteq> []"
    by (auto simp: DataFrame_def)
  have "missing_rate p = missing_rate (summarize_column tn (DataFrame ds) (column p, ser))"
    using ser(2) by simp
  also have "\<dots> =
      py_round (float_sub 1 (float_div (present_count ds (column p)) (length ds))) 4"
    using ne DataFrame_col[OF ser(1)]
    by (simp add: missing_rate_column DataFrame_len length_dropna)
  finally show m: "missing_rate p =
        py_round (float_sub 1 (float_div (present_count ds (column p)) (length ds))) 4" .
  show "\<bar>missing_rate p - (1 - of_nat (present_count ds (column p)) / of_nat (length ds))\<bar>
        \<le> 1 / 20000 + 3 / 2 ^ 53"
    unfolding m using ne by (intro float_missing_bound present_count_le) simp
next
  show "summarize_dataframe tn (DataFrame []) = Inl KeyError"
    by (simp add: summarize_dataframe_def DataFrame_def)
next
  have "df_cols (DataFrame ten_ds) \<noteq> []"
    by code_simp
  then have "summarize_dataframe tn (DataFrame ten_ds) =
      Inr (sort_key column (map (summarize_column tn (DataFrame ten_ds)) (df_cols (DataFrame ten_ds))))"
    by (simp add: summarize_dataframe_def)
  with ten_ds_profiles[of tn]
  show "\<exists>qs. summarize_dataframe tn (DataFrame ten_ds) = Inr qs \<and>
      map (\<lambda>p. (column p, missing_rate p)) qs = [(''a'', fl (3 / 10)), (''b'', fl (9 / 10))]"
    by simp
qed

text \<open>
  With the field in 1 of 3 Records the code gives the double 0.6667, which is neither
  two thirds nor the double \<^verbatim>\<open>1.0 - 1 / 3\<close>; a Dataset with zero Records fails.
\<close>

theorem missing_rate_counterexample:
  "summarize_dataframe int_of_str (DataFrame third_ds) =
     Inr [\<lparr>column = ''a'', inferred_type = TString, missing_rate = fl (6667 / 10000),
           nunique = 1, minv = VInt 1, maxv = VInt 1\<rparr>] \<and>
   present_count third_ds ''a'' = 1 \<and> length third_ds = 3 \<and>
   fl (6667 / 10000) \<noteq> 1 - 1 / 3 \<and>
   fl (6667 / 10000) \<noteq> float_sub 1 (float_div 1 3) \<and>
   summarize_dataframe int_of_str (DataFrame []) = Inl KeyError"
proof -
  have "fl (6667 / 10000) \<noteq> 1 - 1 / 3" "fl (6667 / 10000) \<noteq> float_sub 1 (float_div 1 3)"
    by code_simp+
  moreover have "summarize_dataframe int_of_str (DataFrame []) = Inl KeyError"
    by (simp add: summarize_dataframe_def DataFrame_def)
  ultimately show ?thesis
    using third_ds_summary third_ds_counts by (simp add: third_profile_def)
qed

text \<open>
  The witness runs the summary of two Datasets: the field in 1 of 3 Records, and the
  field in 7 of 160 Records, where the exact value 0.95625 lies between two four decimal
  values and the double \<^verbatim>\<open>1.0 - 7 / 160\<close> lies above it.
\<close>

theorem missing_rate_rounded_witness:
  "summarize_dataframe int_of_str (DataFrame third_ds) = Inr [third_profile] \<and>
   missing_rate third_profile = py_round (float_sub 1 (float_div 1 3)) 4 \<and>
   \<bar>missing_rate third_profile - (1 - 1 / 3)\<bar> \<le> 1 / 20000 + 3 / 2 ^ 53 \<and>
   map missing_rate (sort_key column
      (map (summarize_column int_of_str (DataFrame tie_ds)) (df_cols (DataFrame tie_ds)))) =
     [fl (9563 / 10000)] \<and>
   \<bar>fl (9563 / 10000) - (1 - 7 / 160)\<bar> \<le> 1 / 20000 + 3 / 2 ^ 53"
proof -
  have m: "third_profile \<in> set [third_profile]"
    by simp
  have c: "column third_profile = ''a''"
    by (simp add: third_profile_def)
  note t = missing_rate_rounded[where tn=int_of_str and ds=third_ds and ps="[third_profile]"
      and p=third_profile]
  from t third_ds_summary m have a: "
    missing_rate third_profile =
       py_round (float_sub 1 (float_div (present_count third_ds (column third_profile))
         (length third_ds))) 4 \<and>
    \<bar>missing_rate third_profile -
       (1 - of_nat (present_count third_ds (column third_profile)) / of_nat (length third_ds))\<bar>
       \<le> 1 / 20000 + 3 / 2 ^ 53"
    by blast
  define ps where "ps = sort_key column
      (map (summarize_column int_of_str (DataFrame tie_ds)) (df_cols (DataFrame tie_ds)))"
  define p where "p = summarize_column int_of_str (DataFrame tie_ds)
      (''a'', replicate 7 (Some ''x'') @ replicate 153 None)"
  have ps: "ps = [p]"
    unfolding ps_def p_def tie_ds_cols by simp
  have s: "summarize_dataframe int_of_str (DataFrame tie_ds) = Inr ps"
    unfolding ps_def by (simp add: summarize_dataframe_def tie_ds_cols)
  have cp: "column p = ''a''"
    unfolding p_def by (simp add: summarize_column_def Let_def)
  have r: "py_round (float_sub 1 (float_div 7 160)) 4 = fl (9563 / 10000)"
    by code_simp
  note u = missing_rate_rounded[where tn=int_of_str and ds=tie_ds and ps=ps and p=p]
  have mp: "p \<in> set ps"
    unfolding ps by simp
  from u s mp have b: "
    missing_rate p =
       py_round (float_sub 1 (float_div (present_count tie_ds (column p)) (length tie_ds))) 4 \<and>
    \<bar>missing_rate p -
       (1 - of_nat (present_count tie_ds (column p)) / of_nat (length tie_ds))\<bar>
       \<le> 1 / 20000 + 3 / 2 ^ 53"
    by blast
  from b have b1: "missing_rate p = fl (9563 / 10000)"
    unfolding cp tie_ds_counts r by (elim conjE) simp
  from b have "\<bar>missing_rate p -
       (1 - of_nat (present_count tie_ds (column p)) / of_nat (length tie_ds))\<bar>
       \<le> 1 / 20000 + 3 / 2 ^ 53"
    by (rule conjunct2)
  then have b2: "\<bar>fl (9563 / 10000) - (1 - 7 / 160)\<bar> \<le> 1 / 20000 + 3 / 2 ^ 53"
    unfolding b1 cp tie_ds_counts by simp
  from a have a1: "missing_rate third_profile = py_round (float_sub 1 (float_div 1 3)) 4"
    unfolding c third_ds_counts by (elim conjE) simp
  from a have "\<bar>missing_rate third_profile -
       (1 - of_nat (present_count third_ds (column third_profile)) / of_nat (length third_ds))\<bar>
       \<le> 1 / 20000 + 3 / 2 ^ 53"
    by (rule conjunct2)
  then have a2: "\<bar>missing_rate third_profile - (1 - 1 / 3)\<bar> \<le> 1 / 20000 + 3 / 2 ^ 53"
    unfolding c third_ds_counts by simp
  have b3: "map missing_rate (sort_key column
      (map (summarize_column int_of_str (DataFrame tie_ds)) (df_cols (DataFrame tie_ds)))) =
     [fl (9563 / 10000)]"
    unfolding ps_def[symmetric] ps using b1 by simp
  from third_ds_summary a1 a2 b3 b2 show ?thesis
    by (intro conjI)
qed

lemma infer_type_cleaned:
  "infer_type ser \<noteq> TUnknown \<Longrightarrow> filter (\<lambda>x. x \<noteq> []) (map strip (dropna ser)) \<noteq> []"
  by (auto simp: infer_type_def Let_def split: if_splits)

lemma infer_type_nonnull: "dropna ser = [] \<Longrightarrow> infer_type ser = TUnknown"
  by (simp add: infer_type_def)

lemma profile_fields:
  "inferred_type (summarize_column tn df (k, ser)) = infer_type ser"
  "minv (summarize_column tn df (k, ser)) = fst (extrema (infer_type ser) tn (dropna ser))"
  "maxv (summarize_column tn df (k, ser)) = snd (extrema (infer_type ser) tn (dropna ser))"
  by (simp_all add: summarize_column_def Let_def)

text \<open>
  C6 (as the code has it): in every column profile, min and max are the extrema of the
  numbers that the non-null values convert to when the type is int or float (null when
  none converts); the lexicographic extrema of the trimmed non-empty values when it is
  date; the extrema of the lengths of the non-null values when it is string, and also
  when it is unknown and the column has non-null values; both null when the column has no
  non-null value.
\<close>

theorem extrema_by_type:
  "summarize_dataframe tn df = Inr ps \<Longrightarrow> p \<in> set ps \<Longrightarrow>
   \<exists>ser. (column p, ser) \<in> set (df_cols df) \<and> inferred_type p = infer_type ser \<and>
     (let nonnull = dropna ser;
          nums = dropna (map tn nonnull);
          vals = filter (\<lambda>x. x \<noteq> []) (map strip nonnull);
          lengths = map length nonnull
      in ((inferred_type p = TInt \<or> inferred_type p = TFloat) \<and> nums \<noteq> [] \<longrightarrow>
            minv p = VFloat (Min (set nums)) \<and> maxv p = VFloat (Max (set nums))) \<and>
         ((inferred_type p = TInt \<or> inferred_type p = TFloat) \<and> nums = [] \<longrightarrow>
            minv p = VNone \<and> maxv p = VNone) \<and>
         (inferred_type p = TDate \<longrightarrow>
            vals \<noteq> [] \<and> minv p = VStr (Min (set vals)) \<and> maxv p = VStr (Max (set vals))) \<and>
         (inferred_type p = TString \<longrightarrow>
            nonnull \<noteq> [] \<and> minv p = VInt (Min (set lengths)) \<and>
            maxv p = VInt (Max (set lengths))) \<and>
         (inferred_type p = TUnknown \<and> nonnull \<noteq> [] \<longrightarrow>
            minv p = VInt (Min (set lengths)) \<and> maxv p = VInt (Max (set lengths))) \<and>
         (nonnull = [] \<longrightarrow>
            inferred_type p = TUnknown \<and> minv p = VNone \<and> maxv p = VNone))"
proof -
  assume a: "summarize_dataframe tn df = Inr ps" "p \<in> set ps"
  then obtain ser where ser: "(column p, ser) \<in> set (df_cols df)"
    "p = summarize_column tn df (column p, ser)"
    by (rule summarize_dataframe_profile)
  have f: "inferred_type p = infer_type ser"
    "minv p = fst (extrema (infer_type ser) tn (dropna ser))"
    "maxv p = snd (extrema (infer_type ser) tn (dropna ser))"
    by (subst ser(2), simp add: profile_fields)+
  have c: "infer_type ser \<noteq> TUnknown \<Longrightarrow>
      filter (\<lambda>x. x \<noteq> []) (map strip (dropna ser)) \<noteq> [] \<and> dropna ser \<noteq> []"
    using infer_type_cleaned[of ser] by auto
  have n: "dropna ser = [] \<Longrightarrow> infer_type ser = TUnknown"
    by (rule infer_type_nonnull)
  show ?thesis
    apply (rule exI[of _ ser])
    apply (simp only: ser(1) f Let_def simp_thms)
    using c n by (auto simp: extrema_def Let_def)
qed

theorem unknown_lengths_counterexample:
  "summarize_dataframe int_of_str (DataFrame blank_ds) = Inr [blank_profile] \<and>
   inferred_type blank_profile = TUnknown \<and>
   minv blank_profile = VInt 0 \<and> maxv blank_profile = VInt 1"
  by (simp add: blank_ds_summary) (simp add: blank_profile_def)

lemma mixed_ds_cols:
  "(k, ser) \<in> set (df_cols (DataFrame mixed_ds)) \<Longrightarrow> ser = map (\<lambda>r. cell r k) mixed_ds"
  by (rule DataFrame_col)

theorem extrema_by_type_witness:
  "summarize_dataframe int_of_str (DataFrame mixed_ds) = Inr mixed_profiles \<and>
   minv (mixed_profiles ! 0) = VStr (Min (set [''20250101'', ''202412''])) \<and>
   maxv (mixed_profiles ! 0) = VStr (Max (set [''20250101'', ''202412''])) \<and>
   minv (mixed_profiles ! 1) = VFloat (Min (set [12, - 7])) \<and>
   maxv (mixed_profiles ! 1) = VFloat (Max (set [12, - 7])) \<and>
   minv (mixed_profiles ! 2) = VInt (Min (set (map length [''abc'', ''z'']))) \<and>
   maxv (mixed_profiles ! 2) = VInt (Max (set (map length [''abc'', ''z''])))"
proof -
  have t: "inferred_type (mixed_profiles ! 0) = TDate" "inferred_type (mixed_profiles ! 1) = TInt"
    "inferred_type (mixed_profiles ! 2) = TString"
    "column (mixed_profiles ! 0) = ''d''" "column (mixed_profiles ! 1) = ''n''"
    "column (mixed_profiles ! 2) = ''s''"
    by (simp_all add: mixed_profiles_def)
  have c: "map (\<lambda>r. cell r ''d'') mixed_ds = [Some ''20250101'', Some ''202412'']"
    "map (\<lambda>r. cell r ''n'') mixed_ds = [Some ''12'', Some ''-7'']"
    "map (\<lambda>r. cell r ''s'') mixed_ds = [Some ''abc'', Some ''z'']"
    by (simp_all add: mixed_ds_def cell_def)
  have n: "dropna (map int_of_str [''12'', ''-7'']) = [12, - 7]"
    by code_simp
  have s: "filter (\<lambda>x. x \<noteq> []) (map strip [''20250101'', ''202412'']) = [''20250101'', ''202412'']"
    by code_simp
  have d: "dropna [Some a, Some b] = [a, b]" for a b :: string
    by (simp add: dropna_def)
  have "mixed_profiles ! 0 \<in> set mixed_profiles"
    by (simp add: mixed_profiles_def)
  from extrema_by_type[OF mixed_ds_summary this, unfolded Let_def t] obtain ser where
    ser: "(''d'', ser) \<in> set (df_cols (DataFrame mixed_ds))" and
    x: "filter (\<lambda>x. x \<noteq> []) (map strip (dropna ser)) \<noteq> [] \<and>
        minv (mixed_profiles ! 0) = VStr (Min (set (filter (\<lambda>x. x \<noteq> []) (map strip (dropna ser))))) \<and>
        maxv (mixed_profiles ! 0) = VStr (Max (set (filter (\<lambda>x. x \<noteq> []) (map strip (dropna ser)))))"
    by blast
  have "filter (\<lambda>x. x \<noteq> []) (map strip (dropna ser)) = [''20250101'', ''202412'']"
    unfolding mixed_ds_cols[OF ser] c d s ..
  with x have p0: "minv (mixed_profiles ! 0) = VStr (Min (set [''20250101'', ''202412''])) \<and>
            maxv (mixed_profiles ! 0) = VStr (Max (set [''20250101'', ''202412'']))"
    by (simp only:)
  have "mixed_profiles ! 1 \<in> set mixed_profiles"
    by (simp add: mixed_profiles_def)
  from extrema_by_type[OF mixed_ds_summary this, unfolded Let_def t] obtain ser where
    ser: "(''n'', ser) \<in> set (df_cols (DataFrame mixed_ds))" and
    x: "dropna (map int_of_str (dropna ser)) \<noteq> [] \<longrightarrow>
        minv (mixed_profiles ! 1) = VFloat (Min (set (dropna (map int_of_str (dropna ser))))) \<and>
        maxv (mixed_profiles ! 1) = VFloat (Max (set (dropna (map int_of_str (dropna ser)))))"
    by blast
  have "dropna (map int_of_str (dropna ser)) = [12, - 7]"
    unfolding mixed_ds_cols[OF ser] c d n ..
  with x have p1: "minv (mixed_profiles ! 1) = VFloat (Min (set [12, - 7])) \<and>
            maxv (mixed_profiles ! 1) = VFloat (Max (set [12, - 7]))"
    by simp
  have "mixed_profiles ! 2 \<in> set mixed_profiles"
    by (simp add: mixed_profiles_def)
  from extrema_by_type[OF mixed_ds_summary this, unfolded Let_def t] obtain ser where
    ser: "(''s'', ser) \<in> set (df_cols (DataFrame mixed_ds))" and
    x: "minv (mixed_profiles ! 2) = VInt (Min (set (map length (dropna ser)))) \<and>
        maxv (mixed_profiles ! 2) = VInt (Max (set (map length (dropna ser))))"
    by blast
  have "dropna ser = [''abc'', ''z'']"
    unfolding mixed_ds_cols[OF ser] c d ..
  with x have p2: "minv (mixed_profiles ! 2) = VInt (Min (set (map length [''abc'', ''z'']))) \<and>
            maxv (mixed_profiles ! 2) = VInt (Max (set (map length [''abc'', ''z''])))"
    by (simp only:)
  from p0 p1 p2 mixed_ds_summary show ?thesis by blast
qed

text \<open>
  C7 (as the code has it): \<open>summarize_dataframe\<close> raises KeyError exactly when the frame
  has no column, which is what a Dataset of zero Records gives; \<open>main\<close> never gets there,
  it skips a Dataset of zero Records; on a frame with a column the result has one profile
  per column, sorted by name.
\<close>

theorem summarize_empty_raises:
  "(summarize_dataframe tn df = Inl KeyError) = (df_cols df = []) \<and>
   summarize_dataframe tn (DataFrame []) = Inl KeyError \<and>
   main_step tn [] = None \<and>
   (items \<noteq> [] \<longrightarrow> main_step tn items = Some (summarize_dataframe tn (DataFrame items))) \<and>
   (df_cols df \<noteq> [] \<longrightarrow>
      (\<exists>ps. summarize_dataframe tn df = Inr ps \<and> length ps = length (df_cols df) \<and>
         sorted (map column ps) \<and> set (map column ps) = fst ` set (df_cols df)))"
proof (intro conjI impI)
  show "(summarize_dataframe tn df = Inl KeyError) = (df_cols df = [])"
    by (simp add: summarize_dataframe_def)
  show "summarize_dataframe tn (DataFrame []) = Inl KeyError"
    by (simp add: summarize_dataframe_def DataFrame_def)
  show "main_step tn [] = None"
    by (simp add: main_step_def)
next
  assume "items \<noteq> []"
  then show "main_step tn items = Some (summarize_dataframe tn (DataFrame items))"
    by (simp add: main_step_def)
next
  assume ne: "df_cols df \<noteq> []"
  let ?ps = "sort_key column (map (summarize_column tn df) (df_cols df))"
  have "summarize_dataframe tn df = Inr ?ps"
    using ne by (simp add: summarize_dataframe_def)
  moreover have "length ?ps = length (df_cols df)"
    by simp
  moreover have "sorted (map column ?ps)"
    by (rule sorted_sort_key)
  moreover have "column (summarize_column tn df cs) = fst cs" for cs
    by (simp add: summarize_column_def Let_def)
  then have "set (map column ?ps) = fst ` set (df_cols df)"
    by (simp add: image_image)
  ultimately show "\<exists>ps. summarize_dataframe tn df = Inr ps \<and> length ps = length (df_cols df) \<and>
         sorted (map column ps) \<and> set (map column ps) = fst ` set (df_cols df)"
    by blast
qed

theorem summarize_empty_counterexample:
  "DataFrame [] = \<lparr>df_len = 0, df_cols = []\<rparr> \<and>
   summarize_dataframe int_of_str (DataFrame []) = Inl KeyError"
  by (simp add: summarize_dataframe_def DataFrame_def)

theorem summarize_empty_raises_witness:
  "main_step int_of_str mixed_ds = Some (Inr mixed_profiles) \<and>
   length mixed_profiles = length (df_cols (DataFrame mixed_ds)) \<and>
   sorted (map column mixed_profiles) \<and>
   set (map column mixed_profiles) = fst ` set (df_cols (DataFrame mixed_ds))"
proof -
  have ne: "mixed_ds \<noteq> []" "df_cols (DataFrame mixed_ds) \<noteq> []"
    by (simp_all add: mixed_ds_def DataFrame_def)
  note t = summarize_empty_raises[where tn=int_of_str and df="DataFrame mixed_ds"
      and items=mixed_ds]
  from t ne(1) have "main_step int_of_str mixed_ds =
      Some (summarize_dataframe int_of_str (DataFrame mixed_ds))"
    by blast
  moreover from t ne(2) obtain ps where
    "summarize_dataframe int_of_str (DataFrame mixed_ds) = Inr ps"
    "length ps = length (df_cols (DataFrame mixed_ds))" "sorted (map column ps)"
    "set (map column ps) = fst ` set (df_cols (DataFrame mixed_ds))"
    by blast
  ultimately show ?thesis
    by (simp add: mixed_ds_summary)
qed

end
